theory Spec2Isabelle
  imports Main "HOL-Library.AList"
begin

text \<open>
  A shallow embedding of the browse plugin of claudebot-plugins
  (\<open>plugins/browse/index.ts\<close>, \<open>pinchtab-backend.ts\<close>, \<open>playwright-backend.ts\<close>): the
  navigation guard, the session pool with its idle and capacity evictions, the memoized
  backend detection, the command and callback handlers, and the two browser backends.
  Everything outside the repository that the code calls (the URL parser, the clock, the
  timers, the chat transport, the remote browser service, the browser engine) answers
  through explicit arguments, and every exception the code can meet is a value of a sum
  type. The definitions come first, the properties after them.
\<close>

section \<open>JavaScript strings and numbers\<close>

text \<open>
  A JavaScript string is a sequence of UTF-16 code units. The model covers the strings
  whose code units are below 256, one \<^typ>\<open>char\<close> for each code unit, so that
  \<open>length\<close>, \<open>slice\<close> and the character classes of the regular expressions count
  what the source counts.
\<close>

definition isWhiteSpace :: "char \<Rightarrow> bool" where
  \<comment> \<open>WhiteSpace and LineTerminator of ECMAScript below 256: TAB, LF, VT, FF, CR, SP, NBSP\<close>
  "isWhiteSpace c = (of_char c \<in> {9, 10, 11, 12, 13, 32, 160 :: nat})"

definition trim :: "string \<Rightarrow> string" where
  "trim s = rev (dropWhile isWhiteSpace (rev (dropWhile isWhiteSpace s)))"

definition lowerChar :: "char \<Rightarrow> char" where
  "lowerChar c =
     (let n = (of_char c :: nat)
      in if (65 \<le> n \<and> n \<le> 90) \<or> (192 \<le> n \<and> n \<le> 222 \<and> n \<noteq> 215)
         then char_of (n + 32) else c)"

definition toLowerCase :: "string \<Rightarrow> string" where
  "toLowerCase s = map lowerChar s"

definition startsWith :: "string \<Rightarrow> string \<Rightarrow> bool" where
  \<comment> \<open>\<open>s.startsWith(p)\<close>\<close>
  "startsWith s p = (take (length p) s = p)"

fun split :: "char \<Rightarrow> string \<Rightarrow> string list" where
  \<comment> \<open>\<open>s.split(c)\<close> for a one-character separator; the empty string gives one empty part\<close>
  "split c [] = [[]]"
| "split c (x # xs) =
     (if x = c then [] # split c xs
      else (case split c xs of [] \<Rightarrow> [[x]] | p # ps \<Rightarrow> (x # p) # ps))"

datatype jsnum = NaN | Num int

definition isNaN :: "jsnum \<Rightarrow> bool" where
  "isNaN n = (n = NaN)"

definition digitVal :: "char \<Rightarrow> nat option" where
  \<comment> \<open>the value of a digit character in radix up to 16, either case\<close>
  "digitVal c =
     (let n = (of_char c :: nat)
      in if 48 \<le> n \<and> n \<le> 57 then Some (n - 48)
         else if 97 \<le> n \<and> n \<le> 102 then Some (n - 87)
         else if 65 \<le> n \<and> n \<le> 70 then Some (n - 55)
         else None)"

definition isDigitOf :: "nat \<Rightarrow> char \<Rightarrow> bool" where
  "isDigitOf radix c = (case digitVal c of None \<Rightarrow> False | Some d \<Rightarrow> d < radix)"

definition digitsValue :: "nat \<Rightarrow> string \<Rightarrow> int" where
  "digitsValue radix ds =
     foldl (\<lambda>acc c. acc * int radix + int (case digitVal c of None \<Rightarrow> 0 | Some d \<Rightarrow> d)) 0 ds"

definition radixLiteral :: "nat \<Rightarrow> string \<Rightarrow> jsnum" where
  "radixLiteral radix ds =
     (if ds \<noteq> [] \<and> list_all (isDigitOf radix) ds then Num (digitsValue radix ds) else NaN)"

definition Number :: "string \<Rightarrow> jsnum" where
  \<comment> \<open>\<open>Number(s)\<close> on the integer literals of StringToNumber: surrounding white space is
      dropped, the empty string is 0, then a radix-prefixed literal or an optionally signed
      run of decimal digits. Literals with a fraction, an exponent part or \<open>Infinity\<close> are
      outside the model and read as \<open>NaN\<close> here, where JavaScript gives a number: for a
      host with such a label, as \<open>10.1.2.1e1\<close>, the guard of the model accepts what the
      code refuses. None of them is a label of the hostnames the theorems below are about.\<close>
  "Number s =
     (let t = trim s
      in if t = [] then Num 0
         else if take 2 t = ''0x'' \<or> take 2 t = ''0X'' then radixLiteral 16 (drop 2 t)
         else if take 2 t = ''0o'' \<or> take 2 t = ''0O'' then radixLiteral 8 (drop 2 t)
         else if take 2 t = ''0b'' \<or> take 2 t = ''0B'' then radixLiteral 2 (drop 2 t)
         else if hd t = CHR ''-'' then
           (case radixLiteral 10 (tl t) of NaN \<Rightarrow> NaN | Num n \<Rightarrow> Num (- n))
         else if hd t = CHR ''+'' then radixLiteral 10 (tl t)
         else radixLiteral 10 t)"

definition parseInt :: "string \<Rightarrow> jsnum" where
  \<comment> \<open>\<open>parseInt(s, 10)\<close>: leading white space, an optional sign, then the longest run of
      decimal digits; \<open>NaN\<close> when that run is empty\<close>
  "parseInt s =
     (let t = dropWhile isWhiteSpace s;
          neg = (t \<noteq> [] \<and> hd t = CHR ''-'');
          u = (if t \<noteq> [] \<and> (hd t = CHR ''-'' \<or> hd t = CHR ''+'') then tl t else t);
          ds = takeWhile (isDigitOf 10) u
      in if ds = [] then NaN
         else Num (if neg then - digitsValue 10 ds else digitsValue 10 ds))"


section \<open>Navigation guard\<close>

text \<open>
  \<open>new URL(rawUrl)\<close> is the platform's URL parser, not code of the repository: it is a
  parameter \<open>newURL\<close> of the model, \<open>None\<close> when the constructor throws. Of the parsed
  object the guard reads \<open>protocol\<close> and \<open>hostname\<close>.
\<close>

record URL =
  protocol :: string
  hostname :: string

definition geNum :: "jsnum \<Rightarrow> int \<Rightarrow> bool" where
  "geNum x k = (case x of NaN \<Rightarrow> False | Num n \<Rightarrow> k \<le> n)"

definition leNum :: "jsnum \<Rightarrow> int \<Rightarrow> bool" where
  "leNum x k = (case x of NaN \<Rightarrow> False | Num n \<Rightarrow> n \<le> k)"

definition isUrlSafe :: "(string \<Rightarrow> URL option) \<Rightarrow> string \<Rightarrow> bool" where
  "isUrlSafe newURL rawUrl =
     (case newURL rawUrl of
        None \<Rightarrow> False
      | Some parsed \<Rightarrow>
          if protocol parsed \<noteq> ''http:'' \<and> protocol parsed \<noteq> ''https:'' then False
          else
            let host = toLowerCase (hostname parsed) in
            if host = ''localhost'' \<or> host = ''127.0.0.1'' \<or> host = ''::1'' then False
            else if host = ''169.254.169.254'' then False
            else
              let parts = map Number (split CHR ''.'' host) in
              if length parts = 4 \<and> list_all (\<lambda>n. \<not> isNaN n) parts then
                if parts ! 0 = Num 10 then False
                else if parts ! 0 = Num 172 \<and> geNum (parts ! 1) 16 \<and> leNum (parts ! 1) 31
                  then False
                else if parts ! 0 = Num 192 \<and> parts ! 1 = Num 168 then False
                else if parts ! 0 = Num 0 then False
                else True
              else True)"


section \<open>Data model of the browse plugin\<close>

record PageLink =
  label :: string
  link_url :: string

record PageInput =
  ref :: string
  input_type :: string
  placeholder :: string

record PageInfo =
  url :: string
  title :: string
  page_text :: string
  links :: "PageLink list"
  inputs :: "PageInput list"

datatype error =
    RefNotNonNegInt
      \<comment> \<open>the \<open>Error\<close> thrown for a reference that is not a non-negative integer\<close>
  | PinchtabFailed string nat
      \<comment> \<open>\<open>Pinchtab <path> failed: <status>\<close>\<close>
  | PlatformError string
      \<comment> \<open>an exception of the platform: \<open>fetch\<close> rejecting, a Playwright call throwing\<close>

datatype backendType = pinchtab | playwright

text \<open>
  The plugin sees a backend only through the \<open>BrowserBackend\<close> interface. An instance is an
  object; the model names it by the family that built it and a serial number.
\<close>

datatype BrowserBackend = Backend backendType nat

type_synonym chatId = int
type_synonym timerId = nat

record SessionEntry =
  backend :: BrowserBackend
  lastUsed :: int
  timer :: timerId

datatype 'a promise = Pending | Fulfilled 'a

definition MAX_SESSIONS :: nat where
  "MAX_SESSIONS = 5"

definition MAX_LINKS_DISPLAY :: nat where
  "MAX_LINKS_DISPLAY = 10"

text \<open>
  The module state: the two maps and the memoized detection promise, with the counters
  from which \<open>setTimeout\<close> and the backend constructors draw fresh identities. A
  JavaScript \<open>Map\<close> iterates in insertion order, and the capacity eviction sorts the
  entries, so \<open>sessions\<close> is an association list in insertion order
  (\<open>AList.update\<close> replaces in place or appends, as \<open>Map.set\<close> does);
  \<open>pageCache\<close> is only looked up by key.
\<close>

record state =
  sessions :: "(chatId \<times> SessionEntry) list"
  pageCache :: "chatId \<rightharpoonup> PageInfo"
  detectionPromise :: "backendType promise option"
  nextTimer :: nat
  nextBackend :: nat

definition initial :: state where
  "initial = \<lparr>sessions = [], pageCache = Map.empty, detectionPromise = None,
              nextTimer = 0, nextBackend = 0\<rparr>"

text \<open>What a handler tells the chat. The wording of the messages is not modelled.\<close>

datatype notice =
    Help | UnsafeUrl | Loading | Clicking | Typing | GoingBack | Capturing
  | UsageClick | UsageType | NeedLinkNumber | NeedFieldNumber
  | Page PageInfo | Typed string | Photo string | DeleteStatus
  | Failed error | NoLinks | LinkList "PageLink list" | Ack | InvalidLinkNumber
  | Refreshing

text \<open>
  The effects of the plugin on the world outside the two maps, in the order in which
  the code performs them.
\<close>

datatype effect =
    ClearTimeout timerId
  | SetTimeout timerId chatId
  | Cleanup BrowserBackend
  | SessionRemoved chatId
      \<comment> \<open>\<open>sessions.delete\<close> and \<open>pageCache.delete\<close> of an eviction\<close>
  | Probe
      \<comment> \<open>\<open>isPinchtabAvailable()\<close> is started\<close>
  | Create BrowserBackend
  | Navigate BrowserBackend string
  | Click BrowserBackend string
  | Type BrowserBackend string string
  | Back BrowserBackend
  | Screenshot BrowserBackend
  | Tell notice

text \<open>
  What the world answers during one handler call: the clock, the outcome of the
  \<open>cleanup()\<close> of an evicted backend, of the availability probe, and of the one
  backend operation the handler performs.
\<close>

record env =
  now :: int
  cleanupResult :: "error + unit"
  pinchtabAvailable :: bool
  pageResult :: "error + PageInfo"
  shotResult :: "error + string"


section \<open>Backend selector and session pool\<close>

definition detectBackend :: "state \<Rightarrow> state \<times> effect list" where
  \<comment> \<open>synchronous: the promise is stored before control is given up\<close>
  "detectBackend st =
     (if detectionPromise st = None
      then (st\<lparr>detectionPromise := Some Pending\<rparr>, [Probe])
      else (st, []))"

definition settle :: "bool \<Rightarrow> state \<Rightarrow> state \<times> backendType" where
  \<comment> \<open>\<open>await detectBackend()\<close>: a pending probe resolves with the answer of the world
      (\<open>isPinchtabAvailable\<close> catches every failure), a fulfilled promise keeps its value\<close>
  "settle available st =
     (case detectionPromise st of
        Some (Fulfilled t) \<Rightarrow> (st, t)
      | _ \<Rightarrow>
          let t = (if available then pinchtab else playwright)
          in (st\<lparr>detectionPromise := Some (Fulfilled t)\<rparr>, t))"

definition catchIgnore :: "error + unit \<Rightarrow> unit" where
  \<comment> \<open>\<open>p.catch(() => {})\<close>\<close>
  "catchIgnore r = (case r of Inl e \<Rightarrow> () | Inr u \<Rightarrow> u)"

definition evictSession :: "env \<Rightarrow> chatId \<Rightarrow> state \<Rightarrow> state \<times> effect list" where
  "evictSession e chat st =
     (case map_of (sessions st) chat of
        None \<Rightarrow> (st, [])
      | Some entry \<Rightarrow>
          let u = catchIgnore (cleanupResult e)
          in (st\<lparr>sessions := AList.delete chat (sessions st),
                 pageCache := (pageCache st)(chat := None)\<rparr>,
              [ClearTimeout (timer entry), Cleanup (backend entry), SessionRemoved chat]))"

definition oldest :: "(chatId \<times> SessionEntry) list \<Rightarrow> (chatId \<times> SessionEntry) option" where
  \<comment> \<open>\<open>[...sessions.entries()].sort(([, a], [, b]) => a.lastUsed - b.lastUsed)[0]\<close>;
      the sort of the platform is stable\<close>
  "oldest es = (case sort_key (\<lambda>p. lastUsed (snd p)) es of [] \<Rightarrow> None | p # ps \<Rightarrow> Some p)"

definition getSession :: "env \<Rightarrow> chatId \<Rightarrow> state \<Rightarrow> state \<times> BrowserBackend \<times> effect list" where
  "getSession e chat st =
     (case map_of (sessions st) chat of
        Some existing \<Rightarrow>
          let t = nextTimer st;
              entry = existing\<lparr>lastUsed := now e, timer := t\<rparr>
          in (st\<lparr>sessions := AList.update chat entry (sessions st), nextTimer := Suc t\<rparr>,
              backend existing,
              [ClearTimeout (timer existing), SetTimeout t chat])
      | None \<Rightarrow>
          let (st1, fx1) =
                (if length (sessions st) \<ge> MAX_SESSIONS then
                   (case oldest (sessions st) of
                      None \<Rightarrow> (st, [])
                    | Some p \<Rightarrow> evictSession e (fst p) st)
                 else (st, []));
              (st2, fx2) = detectBackend st1;
              (st3, backendType) = settle (pinchtabAvailable e) st2;
              b = Backend backendType (nextBackend st3);
              t = nextTimer st3
          in (st3\<lparr>sessions :=
                    AList.update chat \<lparr>backend = b, lastUsed = now e, timer = t\<rparr> (sessions st3),
                  nextTimer := Suc t, nextBackend := Suc (nextBackend st3)\<rparr>,
              b,
              fx1 @ fx2 @ [Create b, SetTimeout t chat]))"

text \<open>
  \<open>evictSession\<close> and \<open>getSession\<close> above are a call that runs to its end with nothing
  in between. The code gives up control at every \<open>await\<close>: in \<open>evictSession\<close> while
  \<open>cleanup()\<close> runs, in \<open>getSession\<close> while \<open>evictSession\<close> and \<open>detectBackend\<close>
  settle, and the handlers of other chats run in the meantime. The steps between the
  \<open>await\<close>s follow; run one after the other they are the functions above
  (\<open>evictSession_phases\<close>, \<open>getSession_uninterrupted\<close>). A suspended call of
  \<open>getSession\<close> waits for the cleanup of the chat it evicts, for \<open>evictSession\<close> to
  return, or for the detection; no teardown is taken to happen while a call waits for
  the detection.
\<close>

datatype suspended = AtCleanup chatId | AtEvicted | AtDetection

definition evictStart :: "chatId \<Rightarrow> state \<Rightarrow> effect list \<times> bool" where
  \<comment> \<open>\<open>evictSession\<close> up to \<open>await entry.backend.cleanup()\<close>; whether it reached the \<open>await\<close>\<close>
  "evictStart chat st =
     (case map_of (sessions st) chat of
        None \<Rightarrow> ([], False)
      | Some entry \<Rightarrow> ([ClearTimeout (timer entry), Cleanup (backend entry)], True))"

definition evictFinish :: "env \<Rightarrow> chatId \<Rightarrow> state \<Rightarrow> state \<times> effect list" where
  \<comment> \<open>\<open>evictSession\<close> after the \<open>await\<close>: the failure of \<open>cleanup()\<close> is caught, the two deletes\<close>
  "evictFinish e chat st =
     (let u = catchIgnore (cleanupResult e)
      in (st\<lparr>sessions := AList.delete chat (sessions st),
             pageCache := (pageCache st)(chat := None)\<rparr>,
          [SessionRemoved chat]))"

definition toDetection :: "state \<Rightarrow> state \<times> effect list \<times> (BrowserBackend + suspended)" where
  \<comment> \<open>\<open>await detectBackend()\<close>: the call is made, the caller waits\<close>
  "toDetection st = (let (st2, fx2) = detectBackend st in (st2, fx2, Inr AtDetection))"

definition getSessionStart ::
  "env \<Rightarrow> chatId \<Rightarrow> state \<Rightarrow> state \<times> effect list \<times> (BrowserBackend + suspended)" where
  \<comment> \<open>\<open>getSession\<close> up to its first \<open>await\<close>, or to its return for a chat with an entry\<close>
  "getSessionStart e chat st =
     (case map_of (sessions st) chat of
        Some existing \<Rightarrow>
          let t = nextTimer st;
              entry = existing\<lparr>lastUsed := now e, timer := t\<rparr>
          in (st\<lparr>sessions := AList.update chat entry (sessions st), nextTimer := Suc t\<rparr>,
              [ClearTimeout (timer existing), SetTimeout t chat],
              Inl (backend existing))
      | None \<Rightarrow>
          if length (sessions st) \<ge> MAX_SESSIONS then
            (case oldest (sessions st) of
               None \<Rightarrow> toDetection st
             | Some p \<Rightarrow>
                 (case evictStart (fst p) st of
                    (fx, True) \<Rightarrow> (st, fx, Inr (AtCleanup (fst p)))
                  | (fx, False) \<Rightarrow> (st, fx, Inr AtEvicted)))
          else toDetection st)"

definition getSessionResume ::
  "env \<Rightarrow> chatId \<Rightarrow> suspended \<Rightarrow> state \<Rightarrow> state \<times> effect list \<times> (BrowserBackend + suspended)" where
  \<comment> \<open>\<open>getSession\<close> from one \<open>await\<close> to the next, or to \<open>sessions.set\<close> and the return\<close>
  "getSessionResume e chat s st =
     (case s of
        AtCleanup victim \<Rightarrow>
          (let (st1, fx1) = evictFinish e victim st in (st1, fx1, Inr AtEvicted))
      | AtEvicted \<Rightarrow> toDetection st
      | AtDetection \<Rightarrow>
          let (st3, backendType) = settle (pinchtabAvailable e) st;
              b = Backend backendType (nextBackend st3);
              t = nextTimer st3
          in (st3\<lparr>sessions :=
                    AList.update chat \<lparr>backend = b, lastUsed = now e, timer = t\<rparr> (sessions st3),
                  nextTimer := Suc t, nextBackend := Suc (nextBackend st3)\<rparr>,
              [Create b, SetTimeout t chat],
              Inl b))"

text \<open>A call continued with nothing in between, for at most \<open>n\<close> steps.\<close>

fun continueCall ::
  "nat \<Rightarrow> env \<Rightarrow> chatId \<Rightarrow> state \<times> effect list \<times> (BrowserBackend + suspended)
   \<Rightarrow> (state \<times> BrowserBackend \<times> effect list) option" where
  "continueCall n e chat (st, fx, Inl b) = Some (st, b, fx)"
| "continueCall 0 e chat (st, fx, Inr s) = None"
| "continueCall (Suc n) e chat (st, fx, Inr s) =
     (let (st1, fx1, r) = getSessionResume e chat s st
      in continueCall n e chat (st1, fx @ fx1, r))"

text \<open>
  Calls that overlap: a move starts a call of \<open>getSession\<close> for a chat, or continues
  the suspended call at a position of the list of those that wait.
\<close>

datatype move = Call chatId env | Continue nat env

type_synonym pool = "state \<times> (chatId \<times> suspended) list"

fun overlap :: "move \<Rightarrow> pool \<Rightarrow> pool \<times> effect list" where
  "overlap (Call chat e) (st, waiting) =
     (let (st1, fx, r) = getSessionStart e chat st
      in ((st1, (case r of Inl b \<Rightarrow> waiting | Inr s \<Rightarrow> waiting @ [(chat, s)])), fx))"
| "overlap (Continue i e) (st, waiting) =
     (if i < length waiting then
        let (chat, s) = waiting ! i;
            (st1, fx, r) = getSessionResume e chat s st
        in ((st1, (case r of
                     Inl b \<Rightarrow> take i waiting @ drop (Suc i) waiting
                   | Inr s' \<Rightarrow> waiting[i := (chat, s')])), fx)
      else ((st, waiting), []))"

fun overlapped :: "move list \<Rightarrow> pool \<Rightarrow> pool \<times> effect list" where
  "overlapped [] p = (p, [])"
| "overlapped (m # ms) p =
     (let (p1, fx) = overlap m p;
          (p2, fx') = overlapped ms p1
      in (p2, fx @ fx'))"

definition pluginCleanup :: "state \<Rightarrow> state \<times> effect list" where
  \<comment> \<open>\<open>browsePlugin.cleanup\<close>: every \<open>cleanup()\<close> is started and its failure caught, then
      every timer is cleared, then the maps and the memoized detection are reset\<close>
  "pluginCleanup st =
     (st\<lparr>sessions := [], pageCache := Map.empty, detectionPromise := None\<rparr>,
      map (\<lambda>p. Cleanup (backend (snd p))) (sessions st)
      @ map (\<lambda>p. ClearTimeout (timer (snd p))) (sessions st))"


section \<open>Command and callback handlers\<close>

text \<open>
  The chat transport (\<open>ctx.reply\<close>, \<open>editMessageText\<close>, \<open>answerCbQuery\<close>,
  \<open>replyWithPhoto\<close>) is an external collaborator: each of its calls is one \<open>Tell\<close>
  effect and is taken to succeed. A context carries the chat identity \<open>ctx.chat?.id\<close>
  and, for a command, the text of the message.
\<close>

definition falsy :: "chatId option \<Rightarrow> bool" where
  \<comment> \<open>\<open>!chatId\<close>\<close>
  "falsy c = (c = None \<or> c = Some 0)"

definition validateNumericRef :: "string \<Rightarrow> error + int" where
  "validateNumericRef r =
     (case parseInt r of
        NaN \<Rightarrow> Inl RefNotNonNegInt
      | Num index \<Rightarrow> if index < 0 then Inl RefNotNonNegInt else Inr index)"

definition pageAction ::
  "env \<Rightarrow> chatId \<Rightarrow> (BrowserBackend \<Rightarrow> effect) \<Rightarrow> (PageInfo \<Rightarrow> notice) \<Rightarrow> state
   \<Rightarrow> state \<times> effect list" where
  \<comment> \<open>the body every page operation shares: \<open>try { const session = await getSession(chatId);
      const info = await session.op(...); pageCache.set(chatId, info); <show> } catch { <tell> }\<close>\<close>
  "pageAction e chat call shown st =
     (let (st1, session, fx) = getSession e chat st
      in case pageResult e of
           Inr info \<Rightarrow>
             (st1\<lparr>pageCache := (pageCache st1)(chat \<mapsto> info)\<rparr>,
              fx @ [call session, Tell (shown info)])
         | Inl err \<Rightarrow> (st1, fx @ [call session, Tell (Failed err)]))"

definition shotAction :: "env \<Rightarrow> chatId \<Rightarrow> notice list \<Rightarrow> state \<Rightarrow> state \<times> effect list" where
  "shotAction e chat after st =
     (let (st1, session, fx) = getSession e chat st
      in case shotResult e of
           Inr buffer \<Rightarrow> (st1, fx @ [Screenshot session, Tell (Photo buffer)] @ map Tell after)
         | Inl err \<Rightarrow> (st1, fx @ [Screenshot session, Tell (Failed err)]))"

definition handleClick :: "env \<Rightarrow> chatId \<Rightarrow> string \<Rightarrow> state \<Rightarrow> state \<times> effect list" where
  "handleClick e chat r st =
     (if r = [] then (st, [Tell UsageClick])
      else case validateNumericRef r of
             Inl err \<Rightarrow> (st, [Tell NeedLinkNumber])
           | Inr index \<Rightarrow>
               let (st1, fx) = pageAction e chat (\<lambda>b. Click b r) Page st
               in (st1, Tell Clicking # fx))"

definition handleType :: "env \<Rightarrow> chatId \<Rightarrow> string \<Rightarrow> state \<Rightarrow> state \<times> effect list" where
  "handleType e chat args st =
     (if CHR '' '' \<notin> set args then (st, [Tell UsageType])
      else
        let r = takeWhile (\<lambda>c. c \<noteq> CHR '' '') args;
            txt = drop (Suc (length r)) args
        in case validateNumericRef r of
             Inl err \<Rightarrow> (st, [Tell NeedFieldNumber])
           | Inr index \<Rightarrow>
               let (st1, fx) = pageAction e chat (\<lambda>b. Type b r txt) (\<lambda>info. Typed txt) st
               in (st1, Tell Typing # fx))"

definition handleBack :: "env \<Rightarrow> chatId \<Rightarrow> state \<Rightarrow> state \<times> effect list" where
  "handleBack e chat st =
     (let (st1, fx) = pageAction e chat Back Page st in (st1, Tell GoingBack # fx))"

definition handleScreenshot :: "env \<Rightarrow> chatId \<Rightarrow> state \<Rightarrow> state \<times> effect list" where
  "handleScreenshot e chat st =
     (let (st1, fx) = shotAction e chat [DeleteStatus] st in (st1, Tell Capturing # fx))"

definition stripCommand :: "string \<Rightarrow> string" where
  \<comment> \<open>\<open>raw.replace(/^\/browse\s*/, '')\<close>\<close>
  "stripCommand raw =
     (if startsWith raw ''/browse'' then dropWhile isWhiteSpace (drop 7 raw) else raw)"

definition commandArgs :: "string option \<Rightarrow> string" where
  \<comment> \<open>\<open>raw.replace(/^\/browse\s*/, '').trim()\<close>, \<open>raw\<close> being the text of the message or \<open>''\<close>\<close>
  "commandArgs msg = trim (stripCommand (case msg of None \<Rightarrow> [] | Some t \<Rightarrow> t))"

definition withScheme :: "string \<Rightarrow> string" where
  \<comment> \<open>an address without a scheme prefix is given \<open>https://\<close>\<close>
  "withScheme args =
     (if \<not> startsWith args ''http://'' \<and> \<not> startsWith args ''https://''
      then ''https://'' @ args else args)"

definition browseCommand ::
  "(string \<Rightarrow> URL option) \<Rightarrow> env \<Rightarrow> chatId option \<Rightarrow> string option \<Rightarrow> state
   \<Rightarrow> state \<times> effect list" where
  "browseCommand newURL e c msg st =
     (if falsy c then (st, [])
      else
        let chat = the c;
            args = commandArgs msg
        in if args = [] then (st, [Tell Help])
           else if startsWith args ''click '' then handleClick e chat (trim (drop 6 args)) st
           else if startsWith args ''type '' then handleType e chat (trim (drop 5 args)) st
           else if args = ''back'' then handleBack e chat st
           else if args = ''screenshot'' then handleScreenshot e chat st
           else
             let u = withScheme args
             in if \<not> isUrlSafe newURL u then (st, [Tell UnsafeUrl])
                else
                  let (st1, fx) = pageAction e chat (\<lambda>b. Navigate b u) Page st
                  in (st1, Tell Loading # fx))"

definition handleCallback ::
  "env \<Rightarrow> chatId option \<Rightarrow> string \<Rightarrow> state \<Rightarrow> (state \<times> effect list) \<times> bool" where
  "handleCallback e c data st =
     (if \<not> startsWith data ''browse:'' then ((st, []), False)
      else if falsy c then ((st, []), True)
      else
        let chat = the c;
            action = drop 7 data
        in if action = ''links'' then
             (case pageCache st chat of
                None \<Rightarrow> ((st, [Tell NoLinks]), True)
              | Some cached \<Rightarrow>
                  if links cached = [] then ((st, [Tell NoLinks]), True)
                  else ((st, [Tell (LinkList (take MAX_LINKS_DISPLAY (links cached))), Tell Ack]),
                        True))
           else if action = ''screenshot'' then
             (let (st1, fx) = shotAction e chat [] st in ((st1, Tell Capturing # fx), True))
           else if action = ''refresh'' then
             (case pageCache st chat of
                None \<Rightarrow> ((st, [Tell Refreshing]), True)
              | Some cached \<Rightarrow>
                  let (st1, fx) = pageAction e chat (\<lambda>b. Navigate b (url cached)) Page st
                  in ((st1, Tell Refreshing # fx), True))
           else if action = ''back'' then
             (let (st1, fx) = pageAction e chat Back Page st
              in ((st1, Tell GoingBack # fx), True))
           else if action = ''page'' then
             (case pageCache st chat of
                None \<Rightarrow> ((st, [Tell Ack]), True)
              | Some cached \<Rightarrow> ((st, [Tell (Page cached), Tell Ack]), True))
           else if startsWith action ''click:'' then
             (let r = drop 6 action
              in case validateNumericRef r of
                   Inl err \<Rightarrow> ((st, [Tell InvalidLinkNumber]), True)
                 | Inr index \<Rightarrow>
                     let (st1, fx) = pageAction e chat (\<lambda>b. Click b r) Page st
                     in ((st1, Tell Clicking # fx), True))
           else ((st, []), False))"

text \<open>
  What can happen to the plugin: a command, a button press, an idle timer firing (its
  callback is \<open>evictSession(chatId)\<close>), the teardown of the plugin. Each runs to its end
  before the next begins.
\<close>

datatype event =
    Command "chatId option" "string option" env
  | Callback "chatId option" string env
  | IdleTimeout chatId env
  | Teardown

fun step :: "(string \<Rightarrow> URL option) \<Rightarrow> event \<Rightarrow> state \<Rightarrow> state \<times> effect list" where
  "step newURL (Command c msg e) st = browseCommand newURL e c msg st"
| "step newURL (Callback c data e) st = fst (handleCallback e c data st)"
| "step newURL (IdleTimeout chat e) st = evictSession e chat st"
| "step newURL Teardown st = pluginCleanup st"

fun run :: "(string \<Rightarrow> URL option) \<Rightarrow> event list \<Rightarrow> state \<Rightarrow> state \<times> effect list" where
  "run newURL [] st = (st, [])"
| "run newURL (ev # evs) st =
     (let (st1, fx) = step newURL ev st;
          (st2, fx') = run newURL evs st1
      in (st2, fx @ fx'))"


section \<open>Remote-service backend (pinchtab)\<close>

definition MAX_TEXT_LENGTH :: nat where
  "MAX_TEXT_LENGTH = 2000"

text \<open>
  What the remote service answers to one request: \<open>fetch\<close> rejects (or the body is not
  JSON), or there is a response with a status and a body.
\<close>

datatype 'a response = FetchRejected | Response nat 'a

definition pinchtabFetch :: "string \<Rightarrow> 'a response \<Rightarrow> error + 'a" where
  "pinchtabFetch path r =
     (case r of
        FetchRejected \<Rightarrow> Inl (PlatformError ''fetch'')
      | Response status body \<Rightarrow>
          if 200 \<le> status \<and> status \<le> 299 then Inr body
          else Inl (PinchtabFailed path status))"

text \<open>
  \<open>/\[([^\]]*)\]\((https?:\/\/[^)]+)\)/g\<close>, one attempt at the head of the string: the
  link and what follows the match. No part of the pattern can match in two ways, so the
  attempt is a single left-to-right pass.
\<close>

definition matchLink :: "string \<Rightarrow> (PageLink \<times> string) option" where
  "matchLink s =
     (case s of
        [] \<Rightarrow> None
      | c # r \<Rightarrow>
          if c \<noteq> CHR ''['' then None
          else
            let lab = takeWhile (\<lambda>x. x \<noteq> CHR '']'') r;
                r1 = dropWhile (\<lambda>x. x \<noteq> CHR '']'') r
            in if r1 = [] then None
               else
                 let r2 = tl r1;
                     n = (if startsWith r2 ''(https://'' then 9
                          else if startsWith r2 ''(http://'' then 8 else 0);
                     r3 = drop n r2;
                     body = takeWhile (\<lambda>x. x \<noteq> CHR '')'') r3;
                     r4 = dropWhile (\<lambda>x. x \<noteq> CHR '')'') r3
                 in if n = 0 \<or> body = [] \<or> r4 = [] then None
                    else
                      let u = tl (take n r2) @ body
                      in Some (\<lparr>label = (if lab = [] then u else lab), link_url = u\<rparr>, tl r4))"

lemma len_tl_dropWhile: "length (tl (dropWhile P xs)) \<le> length xs"
  by (metis diff_le_self le_trans length_dropWhile_le length_tl)

lemma matchLink_shorter: "matchLink s = Some (l, rest) \<Longrightarrow> length rest < length s"
proof -
  assume a: "matchLink s = Some (l, rest)"
  then obtain c r where s: "s = c # r" by (cases s) (auto simp: matchLink_def)
  define r2 where "r2 = tl (dropWhile (\<lambda>x. x \<noteq> CHR '']'') r)"
  define n :: nat where "n = (if startsWith r2 ''(https://'' then 9 else if startsWith r2 ''(http://'' then 8 else 0)"
  from a s have "rest = tl (dropWhile (\<lambda>x. x \<noteq> CHR '')'') (drop n r2))"
    by (auto simp: matchLink_def Let_def r2_def n_def split: if_splits)
  then have "length rest \<le> length (drop n r2)" by (simp only: len_tl_dropWhile)
  also have "\<dots> \<le> length r2" by simp
  also have "\<dots> \<le> length r" unfolding r2_def by (rule len_tl_dropWhile)
  finally show ?thesis using s by simp
qed

function parseLinksFromSnapshot :: "string \<Rightarrow> PageLink list" where
  "parseLinksFromSnapshot s =
     (case matchLink s of
        Some (l, rest) \<Rightarrow> l # parseLinksFromSnapshot rest
      | None \<Rightarrow> (case s of [] \<Rightarrow> [] | c # t \<Rightarrow> parseLinksFromSnapshot t))"
  by pat_completeness auto

termination parseLinksFromSnapshot
  by (relation "measure length") (auto dest: matchLink_shorter)

declare parseLinksFromSnapshot.simps [simp del]

text \<open>
  \<open>/\[ref=(\d+)\]\s*(?:input|textarea)\s*(?:type="([^"]*)")?\s*(?:placeholder="([^"]*)")?/gi\<close>.
  Under the \<open>i\<close> flag a code unit below 256 matches an ASCII letter of the pattern only
  when it is that letter in either case. After the tag name every remaining part is
  optional, so the first way the pattern matches takes each run of white space whole and
  each optional group when it is there.
\<close>

definition lowerAscii :: "char \<Rightarrow> char" where
  "lowerAscii c =
     (let n = (of_char c :: nat) in if 65 \<le> n \<and> n \<le> 90 then char_of (n + 32) else c)"

definition startsWithCI :: "string \<Rightarrow> string \<Rightarrow> bool" where
  "startsWithCI s p = (map lowerAscii (take (length p) s) = p)"

definition quoted :: "string \<Rightarrow> string \<Rightarrow> (string \<times> string) option" where
  \<comment> \<open>\<open>(?:name="([^"]*)")\<close> at the head of the string: the captured text and the rest\<close>
  "quoted name s =
     (if startsWithCI s (name @ ''=\"'') then
        let r = drop (length name + 2) s;
            body = takeWhile (\<lambda>x. x \<noteq> CHR ''\"'') r;
            r1 = dropWhile (\<lambda>x. x \<noteq> CHR ''\"'') r
        in if r1 = [] then None else Some (body, tl r1)
      else None)"

definition optGroup :: "string \<Rightarrow> string \<Rightarrow> string \<times> string" where
  \<comment> \<open>\<open>(?:name="([^"]*)")?\<close>: the group when it matches, else nothing is consumed and the
      capture is undefined (read with \<open>|| default\<close> below, so the empty string stands for it)\<close>
  "optGroup name s = (case quoted name s of None \<Rightarrow> ([], s) | Some p \<Rightarrow> p)"

definition matchInput :: "string \<Rightarrow> (PageInput \<times> string) option" where
  "matchInput s =
     (if \<not> startsWithCI s ''[ref='' then None
      else
        let r = drop 5 s;
            ds = takeWhile (isDigitOf 10) r;
            r1 = dropWhile (isDigitOf 10) r
        in if ds = [] \<or> r1 = [] \<or> hd r1 \<noteq> CHR '']'' then None
           else
             let r2 = dropWhile isWhiteSpace (tl r1);
                 n = (if startsWithCI r2 ''input'' then 5
                      else if startsWithCI r2 ''textarea'' then 8 else 0)
             in if n = 0 then None
                else
                  let g1 = optGroup ''type'' (dropWhile isWhiteSpace (drop n r2));
                      g2 = optGroup ''placeholder'' (dropWhile isWhiteSpace (snd g1))
                  in Some (\<lparr>ref = ds,
                            input_type = (if fst g1 = [] then ''text'' else fst g1),
                            placeholder = fst g2\<rparr>, snd g2))"

lemma quoted_shorter: "quoted name s = Some (t, rest) \<Longrightarrow> length rest \<le> length s"
proof -
  assume a: "quoted name s = Some (t, rest)"
  then have "rest = tl (dropWhile (\<lambda>x. x \<noteq> CHR ''\"'') (drop (length name + 2) s))"
    by (auto simp: quoted_def Let_def split: if_splits)
  then have "length rest \<le> length (drop (length name + 2) s)" by (simp only: len_tl_dropWhile)
  then show ?thesis by simp
qed

lemma optGroup_shorter: "length (snd (optGroup name s)) \<le> length s"
  by (auto simp: optGroup_def split: option.splits dest: quoted_shorter)

lemma matchInput_shorter: "matchInput s = Some (i, rest) \<Longrightarrow> length rest < length s"
proof -
  assume a: "matchInput s = Some (i, rest)"
  then have ci: "startsWithCI s ''[ref=''" by (auto simp: matchInput_def split: if_splits)
  then have s5: "5 \<le> length s" by (auto simp: startsWithCI_def dest!: arg_cong[where f=length])
  define r2 where "r2 = dropWhile isWhiteSpace (tl (dropWhile (isDigitOf 10) (drop 5 s)))"
  define n :: nat where "n = (if startsWithCI r2 ''input'' then 5 else if startsWithCI r2 ''textarea'' then 8 else 0)"
  define r3 where "r3 = dropWhile isWhiteSpace (drop n r2)"
  define r5 where "r5 = dropWhile isWhiteSpace (snd (optGroup ''type'' r3))"
  from a ci have "rest = snd (optGroup ''placeholder'' r5)"
    by (auto simp: matchInput_def Let_def r2_def n_def r3_def r5_def split: if_splits)
  then have "length rest \<le> length r5" by (simp only: optGroup_shorter)
  moreover have "length r5 \<le> length (snd (optGroup ''type'' r3))" unfolding r5_def by (rule length_dropWhile_le)
  moreover have "length (snd (optGroup ''type'' r3)) \<le> length r3" by (rule optGroup_shorter)
  moreover have "length r3 \<le> length r2" unfolding r3_def
    by (metis diff_le_self le_trans length_dropWhile_le length_drop)
  moreover have "length r2 \<le> length (tl (dropWhile (isDigitOf 10) (drop 5 s)))" unfolding r2_def by (rule length_dropWhile_le)
  moreover have "length (tl (dropWhile (isDigitOf 10) (drop 5 s))) \<le> length (drop 5 s)" by (rule len_tl_dropWhile)
  ultimately have "length rest \<le> length s - 5" by simp
  moreover from a ci have "dropWhile (isDigitOf 10) (drop 5 s) \<noteq> []"
    by (auto simp: matchInput_def Let_def split: if_splits)
  then have "drop 5 s \<noteq> []" by auto
  ultimately show ?thesis by simp
qed

function parseInputsFromSnapshot :: "string \<Rightarrow> PageInput list" where
  "parseInputsFromSnapshot s =
     (case matchInput s of
        Some (i, rest) \<Rightarrow> i # parseInputsFromSnapshot rest
      | None \<Rightarrow> (case s of [] \<Rightarrow> [] | c # t \<Rightarrow> parseInputsFromSnapshot t))"
  by pat_completeness auto

termination parseInputsFromSnapshot
  by (relation "measure length") (auto dest: matchInput_shorter)

declare parseInputsFromSnapshot.simps [simp del]


record PinchtabSnapshot =
  role :: string
  content :: string

definition joinLines :: "string list \<Rightarrow> string" where
  \<comment> \<open>\<open>parts.join('\n')\<close>\<close>
  "joinLines ps = (case ps of [] \<Rightarrow> [] | p # qs \<Rightarrow> p @ concat (map (\<lambda>q. CHR 0x0A # q) qs))"

definition getPageInfo ::
  "string \<Rightarrow> string response \<Rightarrow> PinchtabSnapshot list response \<Rightarrow> error + PageInfo" where
  \<comment> \<open>the two requests run side by side; only a failure of \<open>/text\<close> fails the whole\<close>
  "getPageInfo currentUrl textResp snapResp =
     (case pinchtabFetch ''/text'' textResp of
        Inl err \<Rightarrow> Inl err
      | Inr body \<Rightarrow>
          let snapshotResult =
                (case pinchtabFetch ''/snapshot?filter=interactive'' snapResp of
                   Inl err \<Rightarrow> [] | Inr snaps \<Rightarrow> snaps);
              snapshotContent = joinLines (map content snapshotResult);
              firstLine = trim (hd (split (CHR 0x0A) body))
          in Inr \<lparr>url = currentUrl,
                  title = (if firstLine = [] then currentUrl else firstLine),
                  page_text = take MAX_TEXT_LENGTH body,
                  links = parseLinksFromSnapshot snapshotContent,
                  inputs = parseInputsFromSnapshot snapshotContent\<rparr>)"

text \<open>
  A pinchtab backend instance holds the list \<open>urlHistory\<close>. Each operation is given the
  answers of the remote service to the requests it makes.
\<close>

record service =
  actionResp :: "unit response"
  textResp :: "string response"
  snapResp :: "PinchtabSnapshot list response"

definition currentUrlOf :: "string list \<Rightarrow> string" where
  \<comment> \<open>\<open>urlHistory[urlHistory.length - 1] || ''\<close>\<close>
  "currentUrlOf urlHistory = (if urlHistory = [] then [] else last urlHistory)"

definition pt_navigate :: "service \<Rightarrow> string \<Rightarrow> string list \<Rightarrow> string list \<times> (error + PageInfo)" where
  "pt_navigate sv u urlHistory =
     (case pinchtabFetch ''/navigate'' (actionResp sv) of
        Inl err \<Rightarrow> (urlHistory, Inl err)
      | Inr ok \<Rightarrow> (urlHistory @ [u], getPageInfo u (textResp sv) (snapResp sv)))"

definition pt_click :: "service \<Rightarrow> string \<Rightarrow> string list \<Rightarrow> string list \<times> (error + PageInfo)" where
  "pt_click sv r urlHistory =
     (case pinchtabFetch ''/action'' (actionResp sv) of
        Inl err \<Rightarrow> (urlHistory, Inl err)
      | Inr ok \<Rightarrow> (urlHistory, getPageInfo (currentUrlOf urlHistory) (textResp sv) (snapResp sv)))"

definition pt_type ::
  "service \<Rightarrow> string \<Rightarrow> string \<Rightarrow> string list \<Rightarrow> string list \<times> (error + PageInfo)" where
  "pt_type sv r txt urlHistory =
     (case pinchtabFetch ''/action'' (actionResp sv) of
        Inl err \<Rightarrow> (urlHistory, Inl err)
      | Inr ok \<Rightarrow> (urlHistory, getPageInfo (currentUrlOf urlHistory) (textResp sv) (snapResp sv)))"

definition pt_back :: "service \<Rightarrow> string list \<Rightarrow> string list \<times> (error + PageInfo)" where
  "pt_back sv urlHistory =
     (case pinchtabFetch ''/navigate'' (actionResp sv) of
        Inl err \<Rightarrow> (urlHistory, Inl err)
      | Inr ok \<Rightarrow>
          let h = (if length urlHistory > 1 then butlast urlHistory else urlHistory)
          in (h, getPageInfo (currentUrlOf h) (textResp sv) (snapResp sv)))"

definition pt_getText :: "service \<Rightarrow> error + string" where
  "pt_getText sv =
     (case pinchtabFetch ''/text'' (textResp sv) of
        Inl err \<Rightarrow> Inl err | Inr body \<Rightarrow> Inr (take MAX_TEXT_LENGTH body))"

text \<open>The calls made on one pinchtab instance, each with the answers it meets.\<close>

datatype call =
    CallNavigate string service
  | CallClick string service
  | CallType string string service
  | CallBack service

fun pt_call :: "call \<Rightarrow> string list \<Rightarrow> string list \<times> (error + PageInfo)" where
  "pt_call (CallNavigate u sv) h = pt_navigate sv u h"
| "pt_call (CallClick r sv) h = pt_click sv r h"
| "pt_call (CallType r txt sv) h = pt_type sv r txt h"
| "pt_call (CallBack sv) h = pt_back sv h"

fun pt_calls :: "call list \<Rightarrow> string list \<Rightarrow> string list" where
  \<comment> \<open>the history after a sequence of calls\<close>
  "pt_calls [] h = h"
| "pt_calls (c # cs) h = pt_calls cs (fst (pt_call c h))"


section \<open>Local-engine backend (playwright)\<close>

text \<open>
  The live document of the page, as far as the backend reads it: its address and title,
  the \<open>innerText\<close> of its body (\<open>None\<close> without a body), the \<open>a[href]\<close> elements and
  the \<open>input, textarea, select\<close> elements in document order. A property that is
  undefined or empty in the page is the empty string here; the code reads all of them
  through \<open>||\<close>.
\<close>

record anchor =
  textContent :: string
  href :: string

record control =
  control_type :: string
  tagName :: string
  control_placeholder :: string
  control_name :: string

record document =
  doc_url :: string
  doc_title :: string
  body :: "string option"
  anchors :: "anchor list"
  controls :: "control list"

fun String :: "nat \<Rightarrow> string" where
  \<comment> \<open>\<open>String(i)\<close> for an array index\<close>
  "String n = (if n < 10 then [char_of (48 + n)] else String (n div 10) @ [char_of (48 + n mod 10)])"

declare String.simps [simp del]

definition isRealLink :: "anchor \<Rightarrow> bool" where
  \<comment> \<open>the rule both the extraction and the click apply:
      \<open>label && href.startsWith('http')\<close> with \<open>label = (a.textContent || '').trim()\<close>\<close>
  "isRealLink a = (trim (textContent a) \<noteq> [] \<and> startsWith (href a) ''http'')"

definition extractLinks :: "document \<Rightarrow> PageLink list" where
  "extractLinks d =
     take 30
       (filter (\<lambda>l. label l \<noteq> [] \<and> startsWith (link_url l) ''http'')
          (map (\<lambda>a. \<lparr>label = take 100 (trim (textContent a)), link_url = href a\<rparr>) (anchors d)))"

definition extractInputs :: "document \<Rightarrow> PageInput list" where
  "extractInputs d =
     take 20
       (map (\<lambda>(i, el).
               \<lparr>ref = String i,
                input_type = (if control_type el \<noteq> [] then control_type el
                              else toLowerCase (tagName el)),
                placeholder = (if control_placeholder el \<noteq> [] then control_placeholder el
                               else control_name el)\<rparr>)
          (enumerate 0 (controls d)))"

definition extractPageInfo :: "document \<Rightarrow> PageInfo" where
  \<comment> \<open>the reads of the open page are taken to succeed\<close>
  "extractPageInfo d =
     \<lparr>url = doc_url d,
      title = (if doc_title d = [] then doc_url d else doc_title d),
      page_text = take MAX_TEXT_LENGTH (case body d of None \<Rightarrow> [] | Some t \<Rightarrow> t),
      links = extractLinks d,
      inputs = extractInputs d\<rparr>"

text \<open>
  A playwright backend instance holds \<open>browser\<close> and \<open>page\<close>; the open page is named
  by its live document. Each operation is given what the browser engine does with the
  calls it makes: whether launching and opening a page succeed, the document a \<open>goto\<close>
  loads, the document left by an element's click or by input events once the page has
  settled, and the answer of \<open>goBack\<close> (\<open>null\<close> when there is nothing to go back to).
  \<open>page\<close> is \<open>None\<close> when the variable is \<open>null\<close> or the page is closed. A failed
  \<open>goto\<close> is taken to leave the document as it was, and the evaluations in an open
  page are taken to succeed.
\<close>

record pw =
  browser :: bool
  page :: "document option"

record engine =
  launchRes :: "error + unit"
  newPageRes :: "error + document"
  gotoRes :: "error + document"
  afterClick :: document
  afterInput :: document
  goBackRes :: "error + document option"


definition ensurePage :: "engine \<Rightarrow> pw \<Rightarrow> pw \<times> (error + document)" where
  "ensurePage en st =
     (case page st of
        Some d \<Rightarrow> (st, Inr d)
      | None \<Rightarrow>
          (case (if browser st then Inr () else launchRes en) of
             Inl err \<Rightarrow> (st, Inl err)
           | Inr ok \<Rightarrow>
               (case newPageRes en of
                  Inl err \<Rightarrow> (st\<lparr>browser := True\<rparr>, Inl err)
                | Inr d \<Rightarrow> (st\<lparr>browser := True, page := Some d\<rparr>, Inr d))))"



definition pw_type :: "engine \<Rightarrow> string \<Rightarrow> string \<Rightarrow> pw \<Rightarrow> pw \<times> (error + PageInfo)" where
  "pw_type en r txt st =
     (case ensurePage en st of
        (st1, Inl err) \<Rightarrow> (st1, Inl err)
      | (st1, Inr d) \<Rightarrow>
          (case validateNumericRef r of
             Inl err \<Rightarrow> (st1, Inl err)
           | Inr index \<Rightarrow>
               let d' = (if nat index < length (controls d) then afterInput en else d)
               in (st1\<lparr>page := Some d'\<rparr>, Inr (extractPageInfo d'))))"


definition pw_cleanup :: "pw \<Rightarrow> pw" where
  "pw_cleanup st = \<lparr>browser = False, page = None\<rparr>"


section \<open>Auxiliary definitions for the properties\<close>

text \<open>
  The well-formedness of the pool: \<open>sessions\<close> is a \<open>Map\<close>, so no chat occurs twice,
  and it holds at most \<open>MAX_SESSIONS\<close> entries.
\<close>

definition poolInv :: "state \<Rightarrow> bool" where
  "poolInv st = (distinct (map fst (sessions st)) \<and> length (sessions st) \<le> MAX_SESSIONS)"

fun getSessions :: "(env \<times> chatId) list \<Rightarrow> state \<Rightarrow> state" where
  \<comment> \<open>a sequence of \<open>getSession\<close> calls, each with the answers of the world it meets\<close>
  "getSessions [] st = st"
| "getSessions ((e, chat) # cs) st = getSessions cs (fst (getSession e chat st))"

text \<open>
  What the platform's URL parser returns for the addresses used as concrete inputs
  below, after the URL Standard: the scheme with its colon, and the serialized host,
  where an IPv6 address is written between square brackets.
\<close>

definition sampleURL :: "string \<Rightarrow> URL option" where
  "sampleURL = map_of
     [(''https://example.com'', \<lparr>protocol = ''https:'', hostname = ''example.com''\<rparr>),
      (''http://[::1]/'', \<lparr>protocol = ''http:'', hostname = ''[::1]''\<rparr>),
      (''http://localhost/'', \<lparr>protocol = ''http:'', hostname = ''localhost''\<rparr>),
      (''https://10.1.2.3'', \<lparr>protocol = ''https:'', hostname = ''10.1.2.3''\<rparr>),
      (''ftp://internal'', \<lparr>protocol = ''ftp:'', hostname = ''internal''\<rparr>)]"

definition hostAccepted :: "string \<Rightarrow> bool" where
  \<comment> \<open>what the guard answers for an \<open>http:\<close> address with this \<open>hostname\<close>\<close>
  "hostAccepted h = isUrlSafe (\<lambda>r. Some \<lparr>protocol = ''http:'', hostname = h\<rparr>) []"

text \<open>Concrete inputs: a world whose every cleanup throws, and five chats filling the pool.\<close>

definition envAt :: "int \<Rightarrow> env" where
  "envAt t = \<lparr>now = t, cleanupResult = Inl (PlatformError ''browser has been closed''),
             pinchtabAvailable = False, pageResult = Inl (PlatformError ''Timeout 30000ms exceeded''),
             shotResult = Inr ''PNG''\<rparr>"

definition fiveChats :: "event list" where
  "fiveChats =
     [Callback (Some 1) ''browse:screenshot'' (envAt 50),
      Callback (Some 2) ''browse:screenshot'' (envAt 10),
      Callback (Some 3) ''browse:screenshot'' (envAt 30),
      Callback (Some 4) ''browse:screenshot'' (envAt 20),
      Callback (Some 5) ''browse:screenshot'' (envAt 40)]"

definition fullPool :: state where
  "fullPool = fst (run sampleURL fiveChats initial)"

text \<open>
  Concrete input: six chats call \<open>getSession\<close> on the fresh module while the
  availability probe is pending, then the probe settles and each call goes on.
\<close>

definition sixCalls :: "move list" where
  "sixCalls =
     [Call 1 (envAt 1), Call 2 (envAt 2), Call 3 (envAt 3),
      Call 4 (envAt 4), Call 5 (envAt 5), Call 6 (envAt 6),
      Continue 0 (envAt 7), Continue 0 (envAt 8), Continue 0 (envAt 9),
      Continue 0 (envAt 10), Continue 0 (envAt 11), Continue 0 (envAt 12)]"

text \<open>A pool with one chat, whose page is cached.\<close>

definition cachedPage :: PageInfo where
  "cachedPage = \<lparr>url = ''https://example.com'', title = ''Example Domain'', page_text = ''Example Domain'', links = [], inputs = []\<rparr>"

definition oneChat :: state where
  "oneChat = \<lparr>sessions = [(7, \<lparr>backend = Backend playwright 0, lastUsed = 100, timer = 0\<rparr>)],
              pageCache = [7 \<mapsto> cachedPage], detectionPromise = Some (Fulfilled playwright),
              nextTimer = 1, nextBackend = 1\<rparr>"

text \<open>The number of availability probes among the effects of a run.\<close>

definition probes :: "effect list \<Rightarrow> nat" where
  "probes fx = length (filter (\<lambda>x. x = Probe) fx)"

definition memo :: "state \<Rightarrow> effect list \<Rightarrow> state \<Rightarrow> bool" where
  \<comment> \<open>how one teardown-free step may change the memoized detection\<close>
  "memo st fx st' =
     (case detectionPromise st of
        None \<Rightarrow> (detectionPromise st' = None \<and> probes fx = 0)
                \<or> (detectionPromise st' \<noteq> None \<and> probes fx = 1)
      | Some Pending \<Rightarrow> detectionPromise st' \<noteq> None \<and> probes fx = 0
      | Some (Fulfilled t) \<Rightarrow> detectionPromise st' = Some (Fulfilled t) \<and> probes fx = 0)"

definition navigateRequest :: "string \<Rightarrow> bool" where
  \<comment> \<open>the arguments of a command that \<open>browseCommand\<close> takes for an address: not empty
      and none of the sub-commands\<close>
  "navigateRequest args =
     (args \<noteq> [] \<and> \<not> startsWith args ''click '' \<and> \<not> startsWith args ''type '' \<and>
      args \<noteq> ''back'' \<and> args \<noteq> ''screenshot'')"

text \<open>
  Concrete inputs: a chat opens a public page with the local engine, follows a link of
  that page to a server on the machine itself, then presses the refresh button.
\<close>

definition publicPage :: PageInfo where
  "publicPage = \<lparr>url = ''https://example.com/'', title = ''Example Domain'',
                 page_text = ''Example Domain'',
                 links = [\<lparr>label = ''status'', link_url = ''http://localhost/''\<rparr>], inputs = []\<rparr>"

definition localPage :: PageInfo where
  "localPage = \<lparr>url = ''http://localhost/'', title = ''It works'', page_text = ''It works'',
                links = [], inputs = []\<rparr>"

definition refreshRun :: "event list" where
  "refreshRun =
     [Command (Some 7) (Some ''/browse example.com'') ((envAt 1)\<lparr>pageResult := Inr publicPage\<rparr>),
      Callback (Some 7) ''browse:click:0'' ((envAt 2)\<lparr>pageResult := Inr localPage\<rparr>),
      Callback (Some 7) ''browse:refresh'' ((envAt 3)\<lparr>pageResult := Inr localPage\<rparr>)]"





definition okService :: service where
  "okService = \<lparr>actionResp = Response 200 (), textResp = Response 200 ''Example Domain'',
                snapResp = Response 200 [\<lparr>role = ''link'', content = ''[Learn more](https://iana.org/domains/example)''\<rparr>]\<rparr>"

text \<open>
  For the address a \<open>click\<close> or \<open>type\<close> of the remote-service backend reports: the
  argument of the most recent \<open>navigate\<close> call whose \<open>/navigate\<close> request succeeded,
  the empty string when there is none.
\<close>

fun navigated :: "call \<Rightarrow> string option" where
  "navigated (CallNavigate u sv) =
     (case pinchtabFetch ''/navigate'' (actionResp sv) of Inl err \<Rightarrow> None | Inr ok \<Rightarrow> Some u)"
| "navigated c = None"

definition mostRecentNavigate :: "call list \<Rightarrow> string" where
  "mostRecentNavigate cs = (case rev (List.map_filter navigated cs) of [] \<Rightarrow> [] | u # us \<Rightarrow> u)"

fun isBackCall :: "call \<Rightarrow> bool" where
  "isBackCall (CallBack sv) = True"
| "isBackCall c = False"

definition backRun :: "call list" where
  "backRun = [CallNavigate ''https://a.example/'' okService,
              CallNavigate ''https://b.example/'' okService,
              CallBack okService]"

section \<open>Properties of the navigation guard\<close>

lemma isUrlSafe_cases:
  "isUrlSafe newURL raw =
     (case newURL raw of
        None \<Rightarrow> False
      | Some u \<Rightarrow> (protocol u = ''http:'' \<or> protocol u = ''https:'') \<and> hostAccepted (hostname u))"
proof (cases "newURL raw")
  case None
  then show ?thesis by (simp add: isUrlSafe_def)
next
  case (Some u)
  show ?thesis
  proof (cases "protocol u = ''http:'' \<or> protocol u = ''https:''")
    case False
    with Some show ?thesis by (simp add: isUrlSafe_def)
  next
    case True
    have "isUrlSafe newURL raw = isUrlSafe (\<lambda>r. Some \<lparr>protocol = ''http:'', hostname = hostname u\<rparr>) []"
      unfolding isUrlSafe_def using Some True by (simp only: option.case URL.select_convs) auto
    with Some True show ?thesis by (simp add: hostAccepted_def)
  qed
qed

lemma hostAccepted_listed:
  "\<not> hostAccepted ''127.0.0.1''" "\<not> hostAccepted ''localhost''" "\<not> hostAccepted ''::1''"
  "\<not> hostAccepted ''169.254.169.254''" "\<not> hostAccepted ''10.1.2.3''"
  "\<not> hostAccepted ''172.16.0.1''" "\<not> hostAccepted ''192.168.1.1''"
  by code_simp+

lemma hostAccepted_public: "hostAccepted ''example.com''" "hostAccepted ''8.8.8.8''"
  by code_simp+

lemma guard_listed_hosts:
  assumes "newURL raw = Some u"
    and "hostname u \<in> {''127.0.0.1'', ''localhost'', ''::1'', ''169.254.169.254'',
                        ''10.1.2.3'', ''172.16.0.1'', ''192.168.1.1''}"
  shows "\<not> isUrlSafe newURL raw"
  using assms hostAccepted_listed by (auto simp: isUrlSafe_cases)

lemma guard_public_hosts:
  assumes "newURL raw = Some u" and "protocol u = ''http:'' \<or> protocol u = ''https:''"
    and "hostname u = ''example.com'' \<or> hostname u = ''8.8.8.8''"
  shows "isUrlSafe newURL raw"
  using assms hostAccepted_public by (auto simp: isUrlSafe_cases)

lemma guard_other_scheme:
  assumes "newURL raw = Some u" and "protocol u \<noteq> ''http:''" and "protocol u \<noteq> ''https:''"
  shows "\<not> isUrlSafe newURL raw"
  using assms by (simp add: isUrlSafe_cases)

lemma guard_unparsable: "newURL raw = None \<Longrightarrow> \<not> isUrlSafe newURL raw"
  by (simp add: isUrlSafe_cases)

lemma hostAccepted_bracketed_loopback: "hostAccepted ''[::1]''"
  by code_simp

text \<open>Every host that the parser reports between square brackets passes the guard.\<close>

lemma split_nonempty: "split c s \<noteq> []"
  by (induction s) (auto split: list.splits)

lemma split_head: "x \<noteq> c \<Longrightarrow> \<exists>p ps. split c (x # s) = (x # p) # ps"
  using split_nonempty [of c s] by (cases "split c s") auto

lemma trim_head: "\<not> isWhiteSpace x \<Longrightarrow> \<exists>q. trim (x # p) = x # q"
proof -
  assume x: "\<not> isWhiteSpace x"
  have "dropWhile isWhiteSpace (rev p @ [x]) = dropWhile isWhiteSpace (rev p) @ [x]"
    using x by (induction "rev p" arbitrary: p) (auto simp: dropWhile_append)
  then have "trim (x # p) = x # rev (dropWhile isWhiteSpace (rev p))"
    using x by (simp add: trim_def)
  then show ?thesis by blast
qed

lemma Number_bracket: "Number (CHR ''['' # p) = NaN"
proof -
  have "\<not> isWhiteSpace CHR ''[''" by (simp add: isWhiteSpace_def)
  then obtain q where q: "trim (CHR ''['' # p) = CHR ''['' # q" using trim_head by blast
  have "\<not> isDigitOf 10 CHR ''[''" by (simp add: isDigitOf_def digitVal_def)
  then show ?thesis by (simp add: Number_def q radixLiteral_def)
qed

lemma hostAccepted_bracketed: "hostAccepted (CHR ''['' # h)"
proof -
  define host where "host = toLowerCase (CHR ''['' # h)"
  have hd: "host = CHR ''['' # toLowerCase h" by (simp add: host_def toLowerCase_def lowerChar_def)
  have "CHR ''['' \<noteq> CHR ''.''" by simp
  then have "\<exists>p ps. split CHR ''.'' (CHR ''['' # toLowerCase h) = (CHR ''['' # p) # ps"
    by (rule split_head)
  then obtain p ps where sp: "split CHR ''.'' host = (CHR ''['' # p) # ps"
    unfolding hd by blast
  have nan: "\<not> list_all (\<lambda>n. \<not> isNaN n) (map Number (split CHR ''.'' host))"
    by (simp add: sp Number_bracket isNaN_def)
  have ne: "host \<noteq> ''localhost''" "host \<noteq> ''127.0.0.1''" "host \<noteq> ''::1''" "host \<noteq> ''169.254.169.254''"
    by (simp_all add: hd)
  show ?thesis
    unfolding hostAccepted_def isUrlSafe_def
    using nan ne by (simp add: host_def [symmetric] Let_def)
qed

lemma guard_accepts_ipv6_literals:
  assumes "newURL raw = Some u" and "protocol u = ''http:'' \<or> protocol u = ''https:''"
    and "hostname u = CHR ''['' # h"
  shows "isUrlSafe newURL raw"
  using assms by (auto simp: isUrlSafe_cases hostAccepted_bracketed)

text \<open>
  C1. The guard is meant to refuse the loopback host \<open>::1\<close>, and compares the \<open>hostname\<close> of
  the parsed address with \<open>::1\<close>. The parser reports an IPv6 host between square brackets,
  so for the address \<open>http://[::1]/\<close> the comparison fails and the guard answers
  \<open>true\<close>: the address of the IPv6 loopback host is accepted.
\<close>

theorem guard_accepts_ipv6_loopback: "isUrlSafe sampleURL ''http://[::1]/'' = True"
  by (simp add: isUrlSafe_cases sampleURL_def hostAccepted_bracketed_loopback)

section \<open>The session pool is bounded and evicts the least recently used entry\<close>

lemma length_update_le: "length (AList.update k v al) \<le> Suc (length al)"
  by (induction al) auto

lemma length_update_known: "map_of al k = Some w \<Longrightarrow> length (AList.update k v al) = length al"
  by (induction al) (auto split: if_splits)

lemma length_delete_less: "k \<in> fst ` set al \<Longrightarrow> length (AList.delete k al) < length al"
  by (induction al) (auto simp: le_imp_less_Suc length_delete_le)

lemma oldest_member: "oldest es = Some p \<Longrightarrow> p \<in> set es"
proof -
  assume "oldest es = Some p"
  then obtain ps where "sort_key (\<lambda>p. lastUsed (snd p)) es = p # ps"
    by (auto simp: oldest_def split: list.splits)
  then have "p \<in> set (sort_key (\<lambda>p. lastUsed (snd p)) es)" by simp
  then show ?thesis by simp
qed

lemma oldest_least: "oldest es = Some p \<Longrightarrow> q \<in> set es \<Longrightarrow> lastUsed (snd p) \<le> lastUsed (snd q)"
proof -
  assume a: "oldest es = Some p" and q: "q \<in> set es"
  then obtain ps where s: "sort_key (\<lambda>p. lastUsed (snd p)) es = p # ps"
    by (auto simp: oldest_def split: list.splits)
  have "sorted (map (\<lambda>p. lastUsed (snd p)) (sort_key (\<lambda>p. lastUsed (snd p)) es))"
    by (rule sorted_sort_key)
  with s have "\<forall>x \<in> set ps. lastUsed (snd p) \<le> lastUsed (snd x)" by simp
  moreover from q have "q \<in> set (p # ps)" using s by (metis set_sort)
  ultimately show ?thesis by auto
qed

lemma oldest_exists: "es \<noteq> [] \<Longrightarrow> \<exists>p. oldest es = Some p"
proof -
  assume "es \<noteq> []"
  then have "sort_key (\<lambda>p. lastUsed (snd p)) es \<noteq> []"
    by (metis length_0_conv length_sort)
  then show ?thesis by (auto simp: oldest_def split: list.splits)
qed

lemma evictSession_sessions:
  "sessions (fst (evictSession e chat st)) = AList.delete chat (sessions st)"
proof (cases "map_of (sessions st) chat")
  case None
  then have "chat \<notin> fst ` set (sessions st)" by (simp add: map_of_eq_None_iff)
  then have "AList.delete chat (sessions st) = sessions st" by (rule delete_id)
  with None show ?thesis by (simp add: evictSession_def)
next
  case (Some entry)
  then show ?thesis by (simp add: evictSession_def Let_def)
qed

lemma evictSession_length: "length (sessions (fst (evictSession e chat st))) \<le> length (sessions st)"
  by (simp add: evictSession_sessions length_delete_le)

lemma detectBackend_sessions [simp]: "sessions (fst (detectBackend st)) = sessions st"
  by (simp add: detectBackend_def)

lemma settle_sessions [simp]: "sessions (fst (settle a st)) = sessions st"
  by (simp add: settle_def split: option.splits promise.splits)

lemma getSession_length:
  assumes "length (sessions st) \<le> MAX_SESSIONS"
  shows "length (sessions (fst (getSession e chat st))) \<le> MAX_SESSIONS"
proof (cases "map_of (sessions st) chat")
  case (Some existing)
  then show ?thesis using assms
    by (simp add: getSession_def Let_def length_update_known)
next
  case None
  define st1 where "st1 = fst (if length (sessions st) \<ge> MAX_SESSIONS then
                   (case oldest (sessions st) of None \<Rightarrow> (st, []) | Some p \<Rightarrow> evictSession e (fst p) st)
                 else (st, []))"
  have l1: "length (sessions st1) < MAX_SESSIONS"
  proof (cases "length (sessions st) \<ge> MAX_SESSIONS")
    case True
    then have ne: "sessions st \<noteq> []" by (auto simp: MAX_SESSIONS_def)
    then obtain p where p: "oldest (sessions st) = Some p" using oldest_exists by blast
    then have "fst p \<in> fst ` set (sessions st)" using oldest_member by blast
    then have "length (AList.delete (fst p) (sessions st)) < length (sessions st)"
      by (rule length_delete_less)
    with True p assms show ?thesis by (simp add: st1_def evictSession_sessions)
  next
    case False
    then show ?thesis by (simp add: st1_def)
  qed
  have "sessions (fst (getSession e chat st)) =
        AList.update chat \<lparr>backend = fst (snd (getSession e chat st)), lastUsed = now e,
           timer = nextTimer (fst (settle (pinchtabAvailable e) (fst (detectBackend st1))))\<rparr> (sessions st1)"
    using None by (simp add: getSession_def Let_def st1_def split_beta)
  then have "length (sessions (fst (getSession e chat st))) \<le> Suc (length (sessions st1))"
    by (simp add: length_update_le)
  with l1 show ?thesis by simp
qed


lemma evictSession_distinct:
  "distinct (map fst (sessions st)) \<Longrightarrow> distinct (map fst (sessions (fst (evictSession e chat st))))"
  by (simp add: evictSession_sessions distinct_delete)

lemma getSession_distinct:
  assumes "distinct (map fst (sessions st))"
  shows "distinct (map fst (sessions (fst (getSession e chat st))))"
proof (cases "map_of (sessions st) chat")
  case (Some existing)
  then show ?thesis using assms by (simp add: getSession_def Let_def distinct_update)
next
  case None
  define st1 where "st1 = fst (if length (sessions st) \<ge> MAX_SESSIONS then
                   (case oldest (sessions st) of None \<Rightarrow> (st, []) | Some p \<Rightarrow> evictSession e (fst p) st)
                 else (st, []))"
  have d1: "distinct (map fst (sessions st1))"
    using assms by (auto simp: st1_def evictSession_distinct split: option.splits)
  have "sessions (fst (getSession e chat st)) =
        AList.update chat \<lparr>backend = fst (snd (getSession e chat st)), lastUsed = now e,
           timer = nextTimer (fst (settle (pinchtabAvailable e) (fst (detectBackend st1))))\<rparr> (sessions st1)"
    using None by (simp add: getSession_def Let_def st1_def split_beta)
  with d1 show ?thesis by (simp add: distinct_update)
qed

lemma getSession_poolInv: "poolInv st \<Longrightarrow> poolInv (fst (getSession e chat st))"
  by (simp add: poolInv_def getSession_distinct getSession_length)

lemma getSessions_poolInv: "poolInv st \<Longrightarrow> poolInv (getSessions cs st)"
  by (induction cs arbitrary: st) (auto simp: getSession_poolInv)

lemma pageAction_sessions:
  "sessions (fst (pageAction e chat call shown st)) = sessions (fst (getSession e chat st))"
  by (simp add: pageAction_def split_beta split: sum.splits)

lemma shotAction_sessions:
  "sessions (fst (shotAction e chat after st)) = sessions (fst (getSession e chat st))"
  by (simp add: shotAction_def split_beta split: sum.splits)

lemma pageAction_poolInv: "poolInv st \<Longrightarrow> poolInv (fst (pageAction e chat call shown st))"
  using getSession_poolInv [of st e chat] by (simp add: poolInv_def pageAction_sessions)

lemma shotAction_poolInv: "poolInv st \<Longrightarrow> poolInv (fst (shotAction e chat after st))"
  using getSession_poolInv [of st e chat] by (simp add: poolInv_def shotAction_sessions)

lemma handleClick_poolInv: "poolInv st \<Longrightarrow> poolInv (fst (handleClick e chat r st))"
  by (auto simp: handleClick_def split_beta pageAction_poolInv split: sum.splits)

lemma handleType_poolInv: "poolInv st \<Longrightarrow> poolInv (fst (handleType e chat r st))"
  by (auto simp: handleType_def Let_def split_beta pageAction_poolInv split: sum.splits)

lemma handleBack_poolInv: "poolInv st \<Longrightarrow> poolInv (fst (handleBack e chat st))"
  by (simp add: handleBack_def split_beta pageAction_poolInv)

lemma handleScreenshot_poolInv: "poolInv st \<Longrightarrow> poolInv (fst (handleScreenshot e chat st))"
  by (simp add: handleScreenshot_def split_beta shotAction_poolInv)

lemma browseCommand_poolInv: "poolInv st \<Longrightarrow> poolInv (fst (browseCommand newURL e c msg st))"
  by (simp add: browseCommand_def Let_def split_beta pageAction_poolInv handleClick_poolInv
      handleType_poolInv handleBack_poolInv handleScreenshot_poolInv)

lemma handleCallback_poolInv: "poolInv st \<Longrightarrow> poolInv (fst (fst (handleCallback e c data st)))"
  by (simp add: handleCallback_def Let_def split_beta pageAction_poolInv shotAction_poolInv
      split: option.splits sum.splits)

lemma evictSession_poolInv: "poolInv st \<Longrightarrow> poolInv (fst (evictSession e chat st))"
  using evictSession_length [of e chat st] by (simp add: poolInv_def evictSession_distinct)

lemma step_poolInv: "poolInv st \<Longrightarrow> poolInv (fst (step newURL ev st))"
  by (cases ev)
     (simp_all add: browseCommand_poolInv handleCallback_poolInv evictSession_poolInv,
      simp add: poolInv_def pluginCleanup_def)

lemma run_poolInv: "poolInv st \<Longrightarrow> poolInv (fst (run newURL evs st))"
  by (induction evs arbitrary: st) (simp_all add: split_beta step_poolInv)

lemma initial_poolInv: "poolInv initial"
  by (simp add: poolInv_def initial_def)

lemma capacity_eviction:
  assumes inv: "poolInv st" and new: "map_of (sessions st) chat = None"
    and full: "MAX_SESSIONS \<le> length (sessions st)"
  shows "\<exists>k entry fx.
           oldest (sessions st) = Some (k, entry) \<and> map_of (sessions st) k = Some entry \<and>
           (\<forall>q \<in> set (sessions st). lastUsed entry \<le> lastUsed (snd q)) \<and>
           snd (snd (getSession e chat st)) =
             ClearTimeout (timer entry) # Cleanup (backend entry) # SessionRemoved k # fx \<and>
           map_of (sessions (fst (getSession e chat st))) k = None \<and>
           pageCache (fst (getSession e chat st)) k = None"
proof -
  from full have "sessions st \<noteq> []" by (auto simp: MAX_SESSIONS_def)
  then obtain p where p: "oldest (sessions st) = Some p" using oldest_exists by blast
  obtain k entry where ke: "p = (k, entry)" by (cases p)
  from p ke have mem: "(k, entry) \<in> set (sessions st)" using oldest_member by blast
  with inv have look: "map_of (sessions st) k = Some entry" by (simp add: poolInv_def)
  from look new have kc: "k \<noteq> chat" by auto
  have least: "\<forall>q \<in> set (sessions st). lastUsed entry \<le> lastUsed (snd q)"
    using oldest_least [OF p] ke by simp
  define st1 where "st1 = fst (evictSession e k st)"
  have s1: "sessions st1 = AList.delete k (sessions st)" by (simp add: st1_def evictSession_sessions)
  have c1: "pageCache st1 k = None" using look by (simp add: st1_def evictSession_def Let_def)
  have ev: "evictSession e k st = (st1, [ClearTimeout (timer entry), Cleanup (backend entry), SessionRemoved k])"
    using look by (simp add: st1_def evictSession_def Let_def)
  define st3 where "st3 = fst (settle (pinchtabAvailable e) (fst (detectBackend st1)))"
  have c3: "pageCache st3 k = None" using c1
    by (simp add: st3_def settle_def detectBackend_def split: option.splits promise.splits)
  have s3: "sessions st3 = AList.delete k (sessions st)" using s1 by (simp add: st3_def)
  have g: "getSession e chat st =
        (st3\<lparr>sessions := AList.update chat \<lparr>backend = fst (snd (getSession e chat st)), lastUsed = now e, timer = nextTimer st3\<rparr> (sessions st3),
             nextTimer := Suc (nextTimer st3), nextBackend := Suc (nextBackend st3)\<rparr>,
         fst (snd (getSession e chat st)),
         [ClearTimeout (timer entry), Cleanup (backend entry), SessionRemoved k] @ snd (detectBackend st1)
           @ [Create (fst (snd (getSession e chat st))), SetTimeout (nextTimer st3) chat])"
    using new full p ke ev by (simp add: getSession_def Let_def split_beta st3_def)
  have "map_of (sessions (fst (getSession e chat st))) k = None"
    by (subst g) (simp add: s3 update_conv' kc delete_conv')
  moreover have "pageCache (fst (getSession e chat st)) k = None"
    by (subst g) (simp add: c3)
  moreover have "\<exists>fx. snd (snd (getSession e chat st)) =
             ClearTimeout (timer entry) # Cleanup (backend entry) # SessionRemoved k # fx"
    by (subst g) simp
  ultimately show ?thesis using p ke look least by blast
qed

lemma fullPool_sessions:
  "sessions fullPool =
     [(1, \<lparr>backend = Backend playwright 0, lastUsed = 50, timer = 0\<rparr>),
      (2, \<lparr>backend = Backend playwright 1, lastUsed = 10, timer = 1\<rparr>),
      (3, \<lparr>backend = Backend playwright 2, lastUsed = 30, timer = 2\<rparr>),
      (4, \<lparr>backend = Backend playwright 3, lastUsed = 20, timer = 3\<rparr>),
      (5, \<lparr>backend = Backend playwright 4, lastUsed = 40, timer = 4\<rparr>)]"
  by code_simp

lemma capacity_eviction_keeps_others:
  assumes inv: "poolInv st" and new: "map_of (sessions st) chat = None"
    and full: "MAX_SESSIONS \<le> length (sessions st)"
    and old: "oldest (sessions st) = Some (k, entry)"
    and other: "other \<noteq> k" "other \<noteq> chat"
  shows "map_of (sessions (fst (getSession e chat st))) other = map_of (sessions st) other \<and>
         pageCache (fst (getSession e chat st)) other = pageCache st other"
proof -
  from old have "(k, entry) \<in> set (sessions st)" by (rule oldest_member)
  with inv have look: "map_of (sessions st) k = Some entry" by (simp add: poolInv_def)
  show ?thesis
    using new full old look other
    by (simp add: getSession_def Let_def split_beta evictSession_def detectBackend_def
        settle_def update_conv' delete_conv' split: option.splits promise.splits)
qed

text \<open>
  Calls that do not overlap. In every state the plugin reaches when each command, button
  press, idle timeout and teardown runs to its end before the next begins, and after
  every sequence of \<open>getSession\<close> calls made one after the other, the pool holds at most
  \<open>MAX_SESSIONS\<close> entries. When \<open>getSession\<close> is then called for a chat without an entry
  while the pool is full, the entry it removes is the first of the entries sorted by
  \<open>lastUsed\<close>, so no live entry has a smaller \<open>lastUsed\<close>; its timer is cleared and the
  \<open>cleanup()\<close> of its backend is called before it is removed, its cached page goes with
  it, every other entry stays (\<open>capacity_eviction_keeps_others\<close>), and the pool is within
  its capacity again after the new entry is added.
\<close>

lemma session_pool_capacity_lru:
  assumes "st = fst (run newURL evs initial)"
  shows "length (sessions st) \<le> MAX_SESSIONS \<and>
         length (sessions (getSessions cs initial)) \<le> MAX_SESSIONS \<and>
         (map_of (sessions st) chat = None \<and> MAX_SESSIONS \<le> length (sessions st) \<longrightarrow>
            (\<exists>k entry fx.
               oldest (sessions st) = Some (k, entry) \<and> map_of (sessions st) k = Some entry \<and>
               (\<forall>q \<in> set (sessions st). lastUsed entry \<le> lastUsed (snd q)) \<and>
               snd (snd (getSession e chat st)) =
                 ClearTimeout (timer entry) # Cleanup (backend entry) # SessionRemoved k # fx \<and>
               map_of (sessions (fst (getSession e chat st))) k = None \<and>
               pageCache (fst (getSession e chat st)) k = None \<and>
               length (sessions (fst (getSession e chat st))) \<le> MAX_SESSIONS))"
proof -
  have inv: "poolInv st" unfolding assms using initial_poolInv by (rule run_poolInv)
  have "poolInv (getSessions cs initial)" using initial_poolInv by (rule getSessions_poolInv)
  moreover have "poolInv (fst (getSession e chat st))" using inv by (rule getSession_poolInv)
  ultimately show ?thesis using inv capacity_eviction [OF inv, of chat e]
    by (simp add: poolInv_def)
qed

lemma fullPool_sixth_chat:
  "snd (snd (getSession (envAt 60) 6 fullPool)) =
     [ClearTimeout 1, Cleanup (Backend playwright 1), SessionRemoved 2,
      Create (Backend playwright 5), SetTimeout 5 6]"
  by code_simp

lemma session_pool_capacity_lru_at_fullPool:
  "map_of (sessions fullPool) 6 = None \<and> MAX_SESSIONS \<le> length (sessions fullPool) \<and>
   (\<exists>k entry fx.
       oldest (sessions fullPool) = Some (k, entry) \<and> map_of (sessions fullPool) k = Some entry \<and>
       (\<forall>q \<in> set (sessions fullPool). lastUsed entry \<le> lastUsed (snd q)) \<and>
       snd (snd (getSession (envAt 60) 6 fullPool)) =
         ClearTimeout (timer entry) # Cleanup (backend entry) # SessionRemoved k # fx \<and>
       map_of (sessions (fst (getSession (envAt 60) 6 fullPool))) k = None \<and>
       pageCache (fst (getSession (envAt 60) 6 fullPool)) k = None \<and>
       length (sessions (fst (getSession (envAt 60) 6 fullPool))) \<le> MAX_SESSIONS)"
proof -
  have new: "map_of (sessions fullPool) 6 = None" by (simp add: fullPool_sessions)
  have full: "MAX_SESSIONS \<le> length (sessions fullPool)"
    by (simp add: fullPool_sessions MAX_SESSIONS_def)
  from session_pool_capacity_lru [OF fullPool_def, where chat = 6 and e = "envAt 60"] new full
  show ?thesis by blast
qed

text \<open>Calls that overlap.\<close>

lemma evictSession_phases:
  "evictSession e chat st =
     (case evictStart chat st of
        (fx, False) \<Rightarrow> (st, fx)
      | (fx, True) \<Rightarrow> (fst (evictFinish e chat st), fx @ snd (evictFinish e chat st)))"
  by (simp add: evictSession_def evictStart_def evictFinish_def Let_def split: option.splits)

lemma getSession_uninterrupted:
  "continueCall 3 e chat (getSessionStart e chat st) = Some (getSession e chat st)"
proof (cases "map_of (sessions st) chat")
  case (Some existing)
  then show ?thesis by (simp add: getSessionStart_def getSession_def Let_def)
next
  case None
  have detect: "continueCall (Suc n) e chat (s, fx, Inr AtDetection) =
      Some (let (st3, backendType) = settle (pinchtabAvailable e) s;
                b = Backend backendType (nextBackend st3);
                t = nextTimer st3
            in (st3\<lparr>sessions :=
                    AList.update chat \<lparr>backend = b, lastUsed = now e, timer = t\<rparr> (sessions st3),
                  nextTimer := Suc t, nextBackend := Suc (nextBackend st3)\<rparr>,
                b, fx @ [Create b, SetTimeout t chat]))" for n s fx
    by (simp add: getSessionResume_def Let_def split_beta)
  have plain: "continueCall (Suc n) e chat (toDetection s) =
      Some (let (st2, fx2) = detectBackend s;
                (st3, backendType) = settle (pinchtabAvailable e) st2;
                b = Backend backendType (nextBackend st3);
                t = nextTimer st3
            in (st3\<lparr>sessions :=
                    AList.update chat \<lparr>backend = b, lastUsed = now e, timer = t\<rparr> (sessions st3),
                  nextTimer := Suc t, nextBackend := Suc (nextBackend st3)\<rparr>,
                b, fx2 @ [Create b, SetTimeout t chat]))" for n s
  proof -
    have "toDetection s = (fst (detectBackend s), snd (detectBackend s), Inr AtDetection)"
      by (simp add: toDetection_def split_beta)
    then show ?thesis by (simp only: detect) (simp add: split_beta)
  qed
  have evicted: "continueCall (Suc (Suc n)) e chat (s, fx, Inr AtEvicted) =
      Some (let (st2, fx2) = detectBackend s;
                (st3, backendType) = settle (pinchtabAvailable e) st2;
                b = Backend backendType (nextBackend st3);
                t = nextTimer st3
            in (st3\<lparr>sessions :=
                    AList.update chat \<lparr>backend = b, lastUsed = now e, timer = t\<rparr> (sessions st3),
                  nextTimer := Suc t, nextBackend := Suc (nextBackend st3)\<rparr>,
                b, fx @ fx2 @ [Create b, SetTimeout t chat]))" for n s fx
  proof -
    have "getSessionResume e chat AtEvicted s =
            (fst (detectBackend s), snd (detectBackend s), Inr AtDetection)"
      by (simp add: getSessionResume_def toDetection_def split_beta)
    then have "continueCall (Suc (Suc n)) e chat (s, fx, Inr AtEvicted) =
            continueCall (Suc n) e chat (fst (detectBackend s), fx @ snd (detectBackend s), Inr AtDetection)"
      by simp
    then show ?thesis by (simp only: detect) (simp add: split_beta)
  qed
  have three: "(3::nat) = Suc (Suc (Suc 0))" by simp
  show ?thesis
  proof (cases "length (sessions st) \<ge> MAX_SESSIONS")
    case False
    with None show ?thesis
      by (simp add: getSessionStart_def getSession_def three plain split_beta)
  next
    case True
    show ?thesis
    proof (cases "oldest (sessions st)")
      case none: None
      with None True show ?thesis
        by (simp add: getSessionStart_def getSession_def three plain split_beta)
    next
      case (Some p)
      show ?thesis
      proof (cases "map_of (sessions st) (fst p)")
        case gone: None
        have start: "getSessionStart e chat st = (st, [], Inr AtEvicted)"
          using None True Some gone by (simp add: getSessionStart_def evictStart_def)
        have "continueCall (Suc (Suc (Suc 0))) e chat (st, [], Inr AtEvicted) =
                Some (getSession e chat st)"
          using None True Some gone
          by (simp only: evicted) (simp add: getSession_def evictSession_def split_beta)
        then show ?thesis by (simp only: start three)
      next
        case (Some entry)
        define st1 where "st1 = st\<lparr>sessions := AList.delete (fst p) (sessions st),
                                    pageCache := (pageCache st)(fst p := None)\<rparr>"
        have start: "getSessionStart e chat st =
            (st, [ClearTimeout (timer entry), Cleanup (backend entry)], Inr (AtCleanup (fst p)))"
          using None True \<open>oldest (sessions st) = Some p\<close> Some
          by (simp add: getSessionStart_def evictStart_def)
        have step: "continueCall (Suc (Suc (Suc 0))) e chat
                      (st, [ClearTimeout (timer entry), Cleanup (backend entry)], Inr (AtCleanup (fst p))) =
                    continueCall (Suc (Suc 0)) e chat
                      (st1, [ClearTimeout (timer entry), Cleanup (backend entry)] @ [SessionRemoved (fst p)],
                       Inr AtEvicted)"
          by (simp add: getSessionResume_def evictFinish_def Let_def st1_def)
        have ev: "evictSession e (fst p) st =
            (st1, [ClearTimeout (timer entry), Cleanup (backend entry), SessionRemoved (fst p)])"
          using Some by (simp add: evictSession_def Let_def st1_def)
        have "continueCall (Suc (Suc 0)) e chat
                      (st1, [ClearTimeout (timer entry), Cleanup (backend entry)] @ [SessionRemoved (fst p)],
                       Inr AtEvicted) = Some (getSession e chat st)"
          using None True \<open>oldest (sessions st) = Some p\<close> ev
          by (simp only: evicted) (simp add: getSession_def split_beta)
        then show ?thesis by (simp only: start three step)
      qed
    qed
  qed
qed

lemma sixCalls_sessions:
  "map fst (sessions (fst (fst (overlapped sixCalls (initial, []))))) = [1, 2, 3, 4, 5, 6]"
  by code_simp

lemma sixCalls_probes: "probes (snd (overlapped sixCalls (initial, []))) = 1"
  by code_simp

text \<open>
  C3. The capacity is tested before the \<open>await\<close>s of \<open>getSession\<close> and the entry is added
  after them. Six chats call \<open>getSession\<close> on the fresh module while the availability
  probe is pending: each call finds fewer than \<open>MAX_SESSIONS\<close> entries and waits for the
  one probe; when it settles each call adds its entry, and the pool holds six entries,
  one more than its capacity.
\<close>

theorem overlapping_calls_exceed_capacity:
  "length (sessions (fst (fst (overlapped sixCalls (initial, []))))) = 6 \<and> MAX_SESSIONS = 5"
proof -
  have "length (map fst (sessions (fst (fst (overlapped sixCalls (initial, [])))))) = 6"
    by (simp only: sixCalls_sessions) simp
  then show ?thesis by (simp add: MAX_SESSIONS_def)
qed

section \<open>Eviction\<close>

lemma evictSession_live:
  assumes "map_of (sessions st) chat = Some entry"
  shows "evictSession e chat st =
           (st\<lparr>sessions := AList.delete chat (sessions st), pageCache := (pageCache st)(chat := None)\<rparr>,
            [ClearTimeout (timer entry), Cleanup (backend entry), SessionRemoved chat])"
  using assms by (simp add: evictSession_def Let_def)

lemma evictSession_absent:
  "map_of (sessions st) chat = None \<Longrightarrow> evictSession e chat st = (st, [])"
  by (simp add: evictSession_def)

lemma evictSession_gone: "map_of (sessions (fst (evictSession e chat st))) chat = None"
  by (simp add: evictSession_sessions delete_conv')

text \<open>
  C5. Evicting a chat that has an entry clears its timer, calls the \<open>cleanup()\<close> of its
  backend and removes both its session entry and its cached page, leaving every other
  chat as it was; the outcome is the same when \<open>cleanup()\<close> throws. The idle timeout is
  that eviction, and the capacity eviction of \<open>getSession\<close> goes through it, so the
  chat it removes loses its cached page as well. Evicting a chat without an entry
  changes nothing and has no effect, so evicting a second time changes nothing.
\<close>

theorem eviction_clears_session_and_cache:
  "(map_of (sessions st) chat = Some entry \<longrightarrow>
      snd (evictSession e chat st) =
        [ClearTimeout (timer entry), Cleanup (backend entry), SessionRemoved chat] \<and>
      map_of (sessions (fst (evictSession e chat st))) chat = None \<and>
      pageCache (fst (evictSession e chat st)) chat = None \<and>
      (\<forall>other. other \<noteq> chat \<longrightarrow>
         map_of (sessions (fst (evictSession e chat st))) other = map_of (sessions st) other \<and>
         pageCache (fst (evictSession e chat st)) other = pageCache st other)) \<and>
   evictSession (e\<lparr>cleanupResult := Inl err\<rparr>) chat st = evictSession e chat st \<and>
   step newURL (IdleTimeout chat e) st = evictSession e chat st \<and>
   (poolInv st \<and> map_of (sessions st) new = None \<and> MAX_SESSIONS \<le> length (sessions st) \<longrightarrow>
      (\<exists>k entry. oldest (sessions st) = Some (k, entry) \<and>
         map_of (sessions (fst (getSession e new st))) k = None \<and>
         pageCache (fst (getSession e new st)) k = None)) \<and>
   (map_of (sessions st) chat = None \<longrightarrow> evictSession e chat st = (st, [])) \<and>
   evictSession e' chat (fst (evictSession e chat st)) = (fst (evictSession e chat st), [])"
proof -
  have live: "map_of (sessions st) chat = Some entry \<longrightarrow>
      snd (evictSession e chat st) =
        [ClearTimeout (timer entry), Cleanup (backend entry), SessionRemoved chat] \<and>
      map_of (sessions (fst (evictSession e chat st))) chat = None \<and>
      pageCache (fst (evictSession e chat st)) chat = None \<and>
      (\<forall>other. other \<noteq> chat \<longrightarrow>
         map_of (sessions (fst (evictSession e chat st))) other = map_of (sessions st) other \<and>
         pageCache (fst (evictSession e chat st)) other = pageCache st other)"
    by (simp add: evictSession_live delete_conv')
  have throw: "evictSession (e\<lparr>cleanupResult := Inl err\<rparr>) chat st = evictSession e chat st"
    by (simp add: evictSession_def Let_def split: option.splits)
  have idle: "step newURL (IdleTimeout chat e) st = evictSession e chat st" by simp
  have cap: "poolInv st \<and> map_of (sessions st) new = None \<and> MAX_SESSIONS \<le> length (sessions st) \<longrightarrow>
      (\<exists>k entry. oldest (sessions st) = Some (k, entry) \<and>
         map_of (sessions (fst (getSession e new st))) k = None \<and>
         pageCache (fst (getSession e new st)) k = None)"
    using capacity_eviction [of st new e] by blast
  have absent: "map_of (sessions st) chat = None \<longrightarrow> evictSession e chat st = (st, [])"
    by (simp add: evictSession_absent)
  have again: "evictSession e' chat (fst (evictSession e chat st)) = (fst (evictSession e chat st), [])"
    using evictSession_gone by (rule evictSession_absent)
  from live throw idle cap absent again show ?thesis by blast
qed

theorem eviction_clears_session_and_cache_witness:
  "map_of (sessions oneChat) 7 = Some \<lparr>backend = Backend playwright 0, lastUsed = 100, timer = 0\<rparr> \<and>
   pageCache oneChat 7 = Some cachedPage \<and>
   cleanupResult (envAt 200) = Inl (PlatformError ''browser has been closed'') \<and>
   snd (evictSession (envAt 200) 7 oneChat) =
     [ClearTimeout 0, Cleanup (Backend playwright 0), SessionRemoved 7] \<and>
   map_of (sessions (fst (evictSession (envAt 200) 7 oneChat))) 7 = None \<and>
   pageCache (fst (evictSession (envAt 200) 7 oneChat)) 7 = None \<and>
   evictSession (envAt 300) 7 (fst (evictSession (envAt 200) 7 oneChat)) =
     (fst (evictSession (envAt 200) 7 oneChat), []) \<and>
   map_of (sessions fullPool) 6 = None \<and> MAX_SESSIONS \<le> length (sessions fullPool) \<and>
   (\<exists>k entry. oldest (sessions fullPool) = Some (k, entry) \<and>
         map_of (sessions (fst (getSession (envAt 60) 6 fullPool))) k = None \<and>
         pageCache (fst (getSession (envAt 60) 6 fullPool)) k = None)"
proof -
  have live: "map_of (sessions oneChat) 7 = Some \<lparr>backend = Backend playwright 0, lastUsed = 100, timer = 0\<rparr>"
    by (simp add: oneChat_def)
  have cache: "pageCache oneChat 7 = Some cachedPage" by (simp add: oneChat_def)
  have throws: "cleanupResult (envAt 200) = Inl (PlatformError ''browser has been closed'')"
    by (simp add: envAt_def)
  have new: "map_of (sessions fullPool) 6 = None" by (simp add: fullPool_sessions)
  have full: "MAX_SESSIONS \<le> length (sessions fullPool)"
    by (simp add: fullPool_sessions MAX_SESSIONS_def)
  have inv: "poolInv fullPool" by (simp add: poolInv_def fullPool_sessions MAX_SESSIONS_def)
  from eviction_clears_session_and_cache
         [where st = oneChat and chat = 7 and e = "envAt 200" and e' = "envAt 300"
            and entry = "\<lparr>backend = Backend playwright 0, lastUsed = 100, timer = 0\<rparr>"]
       eviction_clears_session_and_cache
         [where st = fullPool and new = 6 and e = "envAt 60"]
       live cache throws new full inv
  show ?thesis by simp
qed

section \<open>The backend detection is memoized\<close>

lemma evictSession_memo: "memo st (snd (evictSession e chat st)) (fst (evictSession e chat st))"
  by (auto simp: memo_def evictSession_def Let_def probes_def split: option.splits promise.splits)

lemma getSession_memo: "memo st (snd (snd (getSession e chat st))) (fst (getSession e chat st))"
  by (auto simp: memo_def getSession_def Let_def probes_def split_beta evictSession_def
      detectBackend_def settle_def split: option.splits promise.splits)


lemma memo_same:
  "detectionPromise st'' = detectionPromise st' \<Longrightarrow> probes fx' = probes fx \<Longrightarrow> memo st fx st'
   \<Longrightarrow> memo st fx' st''"
  unfolding memo_def by (simp split: option.splits promise.splits)

lemma memo_idle: "memo st [] st"
  by (simp add: memo_def probes_def split: option.splits promise.splits)

lemma memo_told: "memo st fx st' \<Longrightarrow> memo st (Tell n # fx) st'"
  by (erule memo_same [rotated 2]) (simp_all add: probes_def)

lemma memo_tell: "memo st [Tell n] st"
  by (rule memo_told) (rule memo_idle)

lemma memo_tell2: "memo st [Tell n, Tell m] st"
  by (rule memo_told) (rule memo_tell)

lemma pageAction_memo:
  assumes "\<And>b. call b \<noteq> Probe"
  shows "memo st (snd (pageAction e chat call shown st)) (fst (pageAction e chat call shown st))"
  using getSession_memo [of st e chat]
  by (rule memo_same [rotated 2])
     (auto simp: pageAction_def split_beta probes_def assms split: sum.splits)

lemma shotAction_memo:
  "memo st (snd (shotAction e chat after st)) (fst (shotAction e chat after st))"
  using getSession_memo [of st e chat]
  by (rule memo_same [rotated 2])
     (auto simp: shotAction_def split_beta probes_def filter_empty_conv split: sum.splits)

lemma handleClick_memo: "memo st (snd (handleClick e chat r st)) (fst (handleClick e chat r st))"
  by (auto simp: handleClick_def split_beta memo_tell memo_told pageAction_memo split: sum.splits)

lemma handleType_memo: "memo st (snd (handleType e chat r st)) (fst (handleType e chat r st))"
  by (auto simp: handleType_def Let_def split_beta memo_tell memo_told pageAction_memo
      split: sum.splits)

lemma handleBack_memo: "memo st (snd (handleBack e chat st)) (fst (handleBack e chat st))"
  by (simp add: handleBack_def split_beta memo_told pageAction_memo)

lemma handleScreenshot_memo:
  "memo st (snd (handleScreenshot e chat st)) (fst (handleScreenshot e chat st))"
  by (simp add: handleScreenshot_def split_beta memo_told shotAction_memo)

lemma browseCommand_memo:
  "memo st (snd (browseCommand newURL e c msg st)) (fst (browseCommand newURL e c msg st))"
  by (simp add: browseCommand_def Let_def split_beta memo_idle memo_tell memo_told
      pageAction_memo handleClick_memo handleType_memo handleBack_memo handleScreenshot_memo)

lemma handleCallback_memo:
  "memo st (snd (fst (handleCallback e c data st))) (fst (fst (handleCallback e c data st)))"
  by (simp add: handleCallback_def Let_def split_beta memo_idle memo_tell memo_tell2 memo_told
      pageAction_memo shotAction_memo split: option.splits sum.splits)

lemma step_memo: "ev \<noteq> Teardown \<Longrightarrow> memo st (snd (step newURL ev st)) (fst (step newURL ev st))"
  by (cases ev) (simp_all add: browseCommand_memo handleCallback_memo evictSession_memo)

lemma probes_append: "probes (fx @ fx') = probes fx + probes fx'"
  by (simp add: probes_def)

lemma run_probes:
  "Teardown \<notin> set evs \<Longrightarrow>
   probes (snd (run newURL evs st)) \<le> (if detectionPromise st = None then 1 else 0)"
proof (induction evs arbitrary: st)
  case Nil
  then show ?case by (simp add: probes_def)
next
  case (Cons ev evs)
  define st1 where "st1 = fst (step newURL ev st)"
  define fx where "fx = snd (step newURL ev st)"
  from Cons.prems have "ev \<noteq> Teardown" by auto
  then have m: "memo st fx st1" unfolding st1_def fx_def by (rule step_memo)
  from Cons.prems have ih: "probes (snd (run newURL evs st1)) \<le> (if detectionPromise st1 = None then 1 else 0)"
    by (simp add: Cons.IH)
  have r: "snd (run newURL (ev # evs) st) = fx @ snd (run newURL evs st1)"
    by (simp add: split_beta st1_def fx_def)
  from m ih show ?case unfolding r probes_append
    by (auto simp: memo_def split: option.splits promise.splits if_splits)
qed

lemma getSession_memoized:
  assumes "detectionPromise st = Some (Fulfilled t)"
  shows "probes (snd (snd (getSession e chat st))) = 0 \<and>
         detectionPromise (fst (getSession e chat st)) = Some (Fulfilled t) \<and>
         (map_of (sessions st) chat = None \<longrightarrow>
            fst (snd (getSession e chat st)) = Backend t (nextBackend st))"
  using assms
  by (auto simp: getSession_def Let_def probes_def split_beta evictSession_def
      detectBackend_def settle_def split: option.splits)

lemma getSession_after_teardown:
  "probes (snd (snd (getSession e chat (fst (pluginCleanup st))))) = 1"
  by (simp add: pluginCleanup_def getSession_def Let_def probes_def split_beta MAX_SESSIONS_def
      detectBackend_def settle_def)

text \<open>
  C8. From the start of the plugin and without a teardown, whatever happens, the
  availability probe is started at most once. Once the detection is fulfilled,
  \<open>getSession\<close> starts no probe, leaves the detection as it is and builds a new backend
  of the memoized family. \<open>detectBackend\<close> stores the promise in the same synchronous
  step that starts the probe, so a second call made while the first probe is in flight
  starts none. The teardown resets the detection, and the next \<open>getSession\<close> starts a
  probe again.
\<close>

theorem backend_detection_memoized:
  "(Teardown \<notin> set evs \<longrightarrow> probes (snd (run newURL evs initial)) \<le> 1) \<and>
   (detectionPromise st = Some (Fulfilled t) \<longrightarrow>
      probes (snd (snd (getSession e chat st))) = 0 \<and>
      detectionPromise (fst (getSession e chat st)) = Some (Fulfilled t) \<and>
      (map_of (sessions st) chat = None \<longrightarrow>
         fst (snd (getSession e chat st)) = Backend t (nextBackend st))) \<and>
   (detectionPromise st = None \<longrightarrow>
      detectBackend st = (st\<lparr>detectionPromise := Some Pending\<rparr>, [Probe])) \<and>
   (detectionPromise st \<noteq> None \<longrightarrow> detectBackend st = (st, [])) \<and>
   snd (detectBackend (fst (detectBackend st))) = [] \<and>
   detectionPromise (fst (pluginCleanup st)) = None \<and>
   probes (snd (snd (getSession e chat (fst (pluginCleanup st))))) = 1"
proof -
  have "Teardown \<notin> set evs \<longrightarrow> probes (snd (run newURL evs initial)) \<le> 1"
    using run_probes [of evs newURL initial] by (simp add: initial_def)
  moreover have "detectionPromise st = Some (Fulfilled t) \<longrightarrow>
      probes (snd (snd (getSession e chat st))) = 0 \<and>
      detectionPromise (fst (getSession e chat st)) = Some (Fulfilled t) \<and>
      (map_of (sessions st) chat = None \<longrightarrow>
         fst (snd (getSession e chat st)) = Backend t (nextBackend st))"
    using getSession_memoized by blast
  moreover have "detectionPromise st = None \<longrightarrow>
      detectBackend st = (st\<lparr>detectionPromise := Some Pending\<rparr>, [Probe])"
    by (simp add: detectBackend_def)
  moreover have "detectionPromise st \<noteq> None \<longrightarrow> detectBackend st = (st, [])"
    by (simp add: detectBackend_def)
  moreover have "snd (detectBackend (fst (detectBackend st))) = []"
    by (simp add: detectBackend_def)
  moreover have "detectionPromise (fst (pluginCleanup st)) = None"
    by (simp add: pluginCleanup_def)
  moreover note getSession_after_teardown [of e chat st]
  ultimately show ?thesis by blast
qed

lemma fullPool_detection: "detectionPromise fullPool = Some (Fulfilled playwright)"
  by code_simp

lemma fullPool_nextBackend: "nextBackend fullPool = 5"
  by code_simp

theorem backend_detection_memoized_witness:
  "Teardown \<notin> set fiveChats \<and> probes (snd (run sampleURL fiveChats initial)) \<le> 1 \<and>
   detectionPromise fullPool = Some (Fulfilled playwright) \<and>
   map_of (sessions fullPool) 6 = None \<and>
   probes (snd (snd (getSession (envAt 60) 6 fullPool))) = 0 \<and>
   detectionPromise (fst (getSession (envAt 60) 6 fullPool)) = Some (Fulfilled playwright) \<and>
   fst (snd (getSession (envAt 60) 6 fullPool)) = Backend playwright 5 \<and>
   detectionPromise initial = None \<and>
   detectBackend initial = (initial\<lparr>detectionPromise := Some Pending\<rparr>, [Probe]) \<and>
   detectBackend (initial\<lparr>detectionPromise := Some Pending\<rparr>) =
     (initial\<lparr>detectionPromise := Some Pending\<rparr>, []) \<and>
   detectionPromise (fst (pluginCleanup fullPool)) = None \<and>
   probes (snd (snd (getSession (envAt 70) 6 (fst (pluginCleanup fullPool))))) = 1"
proof -
  have quiet: "Teardown \<notin> set fiveChats" by (simp add: fiveChats_def)
  have new: "map_of (sessions fullPool) 6 = None" by (simp add: fullPool_sessions)
  have fresh: "detectionPromise initial = None" by (simp add: initial_def)
  have inflight: "detectionPromise (initial\<lparr>detectionPromise := Some Pending\<rparr>) \<noteq> None" by simp
  from backend_detection_memoized
         [where evs = fiveChats and newURL = sampleURL and st = fullPool and t = playwright
            and e = "envAt 60" and chat = 6]
       backend_detection_memoized [where st = initial]
       backend_detection_memoized [where st = "initial\<lparr>detectionPromise := Some Pending\<rparr>"]
       backend_detection_memoized [where st = fullPool and e = "envAt 70" and chat = 6]
       quiet new fresh inflight fullPool_detection fullPool_nextBackend
  show ?thesis by simp
qed

section \<open>A refused address costs nothing\<close>

text \<open>
  C9. When a command asks for an address and the guard refuses it, the handler only
  tells the chat so: the state, with the session pool and the page cache, is the one
  before the command, no session is looked up or created and no backend is built,
  whether or not the chat has a session.
\<close>

theorem guard_rejection_leaves_state:
  assumes "\<not> falsy c" and "navigateRequest (commandArgs msg)"
    and "\<not> isUrlSafe newURL (withScheme (commandArgs msg))"
  shows "browseCommand newURL e c msg st = (st, [Tell UnsafeUrl])"
  using assms by (simp add: browseCommand_def Let_def navigateRequest_def)

lemma localhost_rejected: "\<not> isUrlSafe sampleURL ''http://localhost/''"
  by (simp add: isUrlSafe_cases sampleURL_def hostAccepted_listed)

lemma localhost_args: "commandArgs (Some ''/browse http://localhost/'') = ''http://localhost/''"
  by code_simp

lemma localhost_scheme: "withScheme ''http://localhost/'' = ''http://localhost/''"
  by code_simp

lemma localhost_request: "navigateRequest ''http://localhost/''"
  by code_simp

theorem guard_rejection_leaves_state_witness:
  "\<not> falsy (Some 7) \<and> map_of (sessions initial) 7 = None \<and>
   navigateRequest (commandArgs (Some ''/browse http://localhost/'')) \<and>
   \<not> isUrlSafe sampleURL (withScheme (commandArgs (Some ''/browse http://localhost/''))) \<and>
   browseCommand sampleURL (envAt 1) (Some 7) (Some ''/browse http://localhost/'') initial
     = (initial, [Tell UnsafeUrl])"
proof -
  have chat: "\<not> falsy (Some 7)" by (simp add: falsy_def)
  have none: "map_of (sessions initial) 7 = None" by (simp add: initial_def)
  have req: "navigateRequest (commandArgs (Some ''/browse http://localhost/''))"
    by (simp only: localhost_args localhost_request)
  have rej: "\<not> isUrlSafe sampleURL (withScheme (commandArgs (Some ''/browse http://localhost/'')))"
    by (simp only: localhost_args localhost_scheme localhost_rejected not_False_eq_True)
  from guard_rejection_leaves_state [OF chat req rej, of "envAt 1" initial] chat none req rej
  show ?thesis by blast
qed

section \<open>Which addresses reach a backend\<close>

lemma getSession_no_navigate: "Navigate b u \<notin> set (snd (snd (getSession e chat st)))"
  by (auto simp: getSession_def Let_def split_beta evictSession_def detectBackend_def
      split: option.splits)

lemma pageAction_navigate:
  "Navigate b u \<in> set (snd (pageAction e chat call shown st)) \<Longrightarrow> \<exists>b'. call b' = Navigate b u"
  using getSession_no_navigate [of b u e chat st]
  by (auto simp: pageAction_def split_beta split: sum.splits)

lemma shotAction_no_navigate: "Navigate b u \<notin> set (snd (shotAction e chat after st))"
  using getSession_no_navigate [of b u e chat st]
  by (auto simp: shotAction_def split_beta split: sum.splits)

lemma handleClick_no_navigate: "Navigate b u \<notin> set (snd (handleClick e chat r st))"
  by (auto simp: handleClick_def split_beta split: sum.splits dest: pageAction_navigate)

lemma handleType_no_navigate: "Navigate b u \<notin> set (snd (handleType e chat r st))"
  by (auto simp: handleType_def Let_def split_beta split: sum.splits dest: pageAction_navigate)

lemma handleBack_no_navigate: "Navigate b u \<notin> set (snd (handleBack e chat st))"
  by (auto simp: handleBack_def split_beta dest: pageAction_navigate)

lemma handleScreenshot_no_navigate: "Navigate b u \<notin> set (snd (handleScreenshot e chat st))"
  by (auto simp: handleScreenshot_def split_beta shotAction_no_navigate)

lemma command_navigate_guarded:
  "Navigate b u \<in> set (snd (browseCommand newURL e c msg st)) \<Longrightarrow> isUrlSafe newURL u"
  by (auto simp: browseCommand_def Let_def split_beta handleClick_no_navigate
      handleType_no_navigate handleBack_no_navigate handleScreenshot_no_navigate
      split: if_splits dest: pageAction_navigate)

lemma pageAction_calls:
  "call (fst (snd (getSession e chat st))) \<in> set (snd (pageAction e chat call shown st))"
  by (auto simp: pageAction_def split_beta split: sum.splits)

lemma refresh_navigates_cached:
  assumes "\<not> falsy c" and "pageCache st (the c) = Some cached"
  shows "Navigate (fst (snd (getSession e (the c) st))) (url cached)
           \<in> set (snd (fst (handleCallback e c ''browse:refresh'' st)))"
  using assms pageAction_calls [of "\<lambda>b. Navigate b (url cached)" e "the c" st Page]
  by (simp add: handleCallback_def Let_def split_beta startsWith_def)

lemma refreshRun_effects:
  "snd (run sampleURL refreshRun initial) =
     [Tell Loading, Probe, Create (Backend playwright 0), SetTimeout 0 7,
      Navigate (Backend playwright 0) ''https://example.com'', Tell (Page publicPage),
      Tell Clicking, ClearTimeout 0, SetTimeout 1 7, Click (Backend playwright 0) ''0'',
      Tell (Page localPage),
      Tell Refreshing, ClearTimeout 1, SetTimeout 2 7,
      Navigate (Backend playwright 0) ''http://localhost/'', Tell (Page localPage)]"
  by code_simp

text \<open>
  C2. Only \<open>browseCommand\<close> asks the guard (\<open>command_navigate_guarded\<close>). The refresh
  button hands the address of the cached page to \<open>navigate\<close> as it is
  (\<open>refresh_navigates_cached\<close>), and that address is the one the backend reported
  after the last operation: here the page reached by following a link, which the guard
  refuses.
\<close>

theorem refresh_navigates_without_guard:
  "Navigate (Backend playwright 0) ''http://localhost/'' \<in> set (snd (run sampleURL refreshRun initial))
   \<and> \<not> isUrlSafe sampleURL ''http://localhost/''"
proof
  show "Navigate (Backend playwright 0) ''http://localhost/'' \<in> set (snd (run sampleURL refreshRun initial))"
    by (simp add: refreshRun_effects)
  show "\<not> isUrlSafe sampleURL ''http://localhost/''"
    by (simp add: isUrlSafe_cases sampleURL_def hostAccepted_listed)
qed

section \<open>References and the errors of a click\<close>














lemma extractLinks_filter:
  "filter (\<lambda>l. label l \<noteq> [] \<and> startsWith (link_url l) ''http'')
     (map (\<lambda>a. \<lparr>label = take 100 (trim (textContent a)), link_url = href a\<rparr>) as) =
   map (\<lambda>a. \<lparr>label = take 100 (trim (textContent a)), link_url = href a\<rparr>) (filter isRealLink as)"
  by (induction as) (auto simp: isRealLink_def)










section \<open>Bounds on the extracted page\<close>

lemma matchLink_sample:
  "matchLink (''[a](http://b)'' @ rest) = Some (\<lparr>label = ''a'', link_url = ''http://b''\<rparr>, rest)"
  by (simp add: matchLink_def startsWith_def)

lemma parseLinks_sample:
  "parseLinksFromSnapshot (''[a](http://b)'' @ rest) =
     \<lparr>label = ''a'', link_url = ''http://b''\<rparr> # parseLinksFromSnapshot rest"
  by (subst parseLinksFromSnapshot.simps) (simp only: matchLink_sample option.case prod.case)

lemma parseLinks_many:
  "parseLinksFromSnapshot (concat (replicate n ''[a](http://b)'')) =
     replicate n \<lparr>label = ''a'', link_url = ''http://b''\<rparr>"
proof (induction n)
  case 0
  show ?case by (subst parseLinksFromSnapshot.simps) (simp add: matchLink_def)
next
  case (Suc n)
  have "concat (replicate (Suc n) ''[a](http://b)'') = ''[a](http://b)'' @ concat (replicate n ''[a](http://b)'')"
    by simp
  then show ?case using Suc by (simp only: parseLinks_sample replicate_Suc)
qed

lemma joinLines_single: "joinLines [s] = s"
  by (simp add: joinLines_def)

lemma playwright_bounds:
  "length (page_text (extractPageInfo d)) \<le> MAX_TEXT_LENGTH \<and>
   length (links (extractPageInfo d)) \<le> 30 \<and> length (inputs (extractPageInfo d)) \<le> 20"
  by (simp add: extractPageInfo_def extractLinks_def extractInputs_def)

lemma pinchtab_text_bound:
  "getPageInfo u t s = Inr info \<Longrightarrow> length (page_text info) \<le> MAX_TEXT_LENGTH"
  by (auto simp: getPageInfo_def Let_def split: sum.splits)

lemma matchInput_sample:
  "matchInput (''[ref=1]input;'' @ rest) =
     Some (\<lparr>ref = ''1'', input_type = ''text'', placeholder = []\<rparr>, CHR '';'' # rest)"
  by (simp add: matchInput_def startsWithCI_def lowerAscii_def isDigitOf_def digitVal_def
      isWhiteSpace_def optGroup_def quoted_def Let_def)

lemma matchInput_semicolon: "matchInput (CHR '';'' # rest) = None"
  by (simp add: matchInput_def startsWithCI_def lowerAscii_def)

lemma parseInputs_sample:
  "parseInputsFromSnapshot (''[ref=1]input;'' @ rest) =
     \<lparr>ref = ''1'', input_type = ''text'', placeholder = []\<rparr> # parseInputsFromSnapshot rest"
  by (subst parseInputsFromSnapshot.simps, simp only: matchInput_sample option.case prod.case,
      subst parseInputsFromSnapshot.simps, simp only: matchInput_semicolon option.case list.case)

lemma parseInputs_many:
  "parseInputsFromSnapshot (concat (replicate n ''[ref=1]input;'')) =
     replicate n \<lparr>ref = ''1'', input_type = ''text'', placeholder = []\<rparr>"
proof (induction n)
  case 0
  show ?case by (subst parseInputsFromSnapshot.simps) (simp add: matchInput_def startsWithCI_def)
next
  case (Suc n)
  have "concat (replicate (Suc n) ''[ref=1]input;'') = ''[ref=1]input;'' @ concat (replicate n ''[ref=1]input;'')"
    by simp
  then show ?case using Suc by (simp only: parseInputs_sample replicate_Suc)
qed

lemma pinchtab_inputs_not_truncated:
  "map_sum id (\<lambda>info. length (inputs info))
     (getPageInfo u (Response 200 answer)
        (Response 200 [\<lparr>role = r, content = concat (replicate n ''[ref=1]input;'')\<rparr>]))
   = Inr n"
  by (simp add: getPageInfo_def pinchtabFetch_def Let_def joinLines_single parseInputs_many)

lemma playwright_links_in_order:
  "links (extractPageInfo d) =
     take 30 (map (\<lambda>a. \<lparr>label = take 100 (trim (textContent a)), link_url = href a\<rparr>)
                (filter isRealLink (anchors d)))"
  by (simp add: extractPageInfo_def extractLinks_def extractLinks_filter)


text \<open>
  C6. The local-engine backend bounds the text, the links and the inputs
  (\<open>playwright_bounds\<close>), and the remote-service backend bounds the text
  (\<open>pinchtab_text_bound\<close>). The links of the remote-service backend are every match of
  the pattern in the snapshot, and its inputs likewise (\<open>pinchtab_inputs_not_truncated\<close>): for each
  \<open>n\<close> there is a snapshot for which the \<open>PageInfo\<close> has \<open>n\<close> links, so no maximum
  count holds.
\<close>

theorem pinchtab_links_not_truncated:
  "map_sum id (\<lambda>info. length (links info))
     (getPageInfo u (Response 200 txt)
        (Response 200 [\<lparr>role = r, content = concat (replicate n ''[a](http://b)'')\<rparr>]))
   = Inr n"
  by (simp add: getPageInfo_def pinchtabFetch_def Let_def joinLines_single parseLinks_many)

section \<open>Going back without a history\<close>





text \<open>
  A remote service that does not answer is another matter: the failure of the
  \<open>/navigate\<close> request is raised by \<open>back\<close> whatever the history holds.
\<close>

lemma pt_back_request_failure:
  "pinchtabFetch ''/navigate'' (actionResp sv) = Inl err \<Longrightarrow> pt_back sv h = (h, Inl err)"
  by (simp add: pt_back_def)


section \<open>The address reported by the remote-service backend\<close>

lemma getPageInfo_url: "getPageInfo u t s = Inr info \<Longrightarrow> url info = u"
  by (auto simp: getPageInfo_def Let_def split: sum.splits)

lemma pt_click_url: "snd (pt_click sv r h) = Inr info \<Longrightarrow> url info = currentUrlOf h"
  by (auto simp: pt_click_def split: sum.splits dest: getPageInfo_url)

lemma pt_type_url: "snd (pt_type sv r w h) = Inr info \<Longrightarrow> url info = currentUrlOf h"
  by (auto simp: pt_type_def split: sum.splits dest: getPageInfo_url)

lemma pt_click_history: "fst (pt_click sv r h) = h"
  by (simp add: pt_click_def split: sum.splits)

lemma pt_type_history: "fst (pt_type sv r w h) = h"
  by (simp add: pt_type_def split: sum.splits)

lemma pt_call_history:
  "\<not> isBackCall c \<Longrightarrow> fst (pt_call c h) = h @ (case navigated c of None \<Rightarrow> [] | Some u \<Rightarrow> [u])"
  by (cases c) (simp_all add: pt_navigate_def pt_click_history pt_type_history split: sum.splits)

lemma pt_calls_history:
  "\<forall>c \<in> set cs. \<not> isBackCall c \<Longrightarrow> pt_calls cs h = h @ List.map_filter navigated cs"
proof (induction cs arbitrary: h)
  case Nil
  show ?case by (simp add: List.map_filter_simps)
next
  case (Cons c cs)
  then show ?case
    by (simp add: pt_call_history List.map_filter_simps split: option.splits)
qed

lemma currentUrlOf_rev: "currentUrlOf us = (case rev us of [] \<Rightarrow> [] | u # vs \<Rightarrow> u)"
  by (cases us rule: rev_cases) (simp_all add: currentUrlOf_def)

text \<open>
  C10, as the code has it. The address in the \<open>PageInfo\<close> that the remote-service
  \<open>click\<close> or \<open>type\<close> returns is the last entry of the history of the backend, the
  empty string for an empty history, and neither call changes the history. After calls
  among which there is no \<open>back\<close>, that entry is the argument of the most recent
  \<open>navigate\<close> call whose \<open>/navigate\<close> request succeeded.
\<close>

theorem click_and_type_report_history_top:
  "(snd (pt_click sv r h) = Inr info \<longrightarrow> url info = currentUrlOf h) \<and>
   (snd (pt_type sv r w h) = Inr info' \<longrightarrow> url info' = currentUrlOf h) \<and>
   fst (pt_click sv r h) = h \<and> fst (pt_type sv r w h) = h \<and>
   ((\<forall>c \<in> set cs. \<not> isBackCall c) \<longrightarrow> currentUrlOf (pt_calls cs []) = mostRecentNavigate cs)"
proof -
  have "(\<forall>c \<in> set cs. \<not> isBackCall c) \<longrightarrow> currentUrlOf (pt_calls cs []) = mostRecentNavigate cs"
    by (simp add: pt_calls_history mostRecentNavigate_def currentUrlOf_rev [symmetric])
  then show ?thesis
    using pt_click_url pt_type_url pt_click_history pt_type_history by blast
qed

lemma backRun_history: "pt_calls backRun [] = [''https://a.example/'']"
  by code_simp

lemma backRun_recent: "mostRecentNavigate backRun = ''https://b.example/''"
  by code_simp

text \<open>
  C10, as stated, fails: after \<open>navigate(a)\<close>, \<open>navigate(b)\<close> and \<open>back()\<close> the
  history is \<open>[a]\<close>, and \<open>click\<close> reports \<open>a\<close> although the most recent \<open>navigate\<close>
  call was given \<open>b\<close>.
\<close>

theorem click_after_back_counterexample:
  "mostRecentNavigate backRun = ''https://b.example/'' \<and>
   map_sum id url (snd (pt_click okService ''0'' (pt_calls backRun []))) = Inr ''https://a.example/''"
proof -
  have "map_sum id url (snd (pt_click okService ''0'' [''https://a.example/''])) = Inr ''https://a.example/''"
    by (simp add: pt_click_def getPageInfo_def pinchtabFetch_def okService_def Let_def currentUrlOf_def)
  then show ?thesis by (simp add: backRun_history backRun_recent)
qed

theorem click_and_type_report_history_top_witness:
  "(\<exists>shown. snd (pt_click okService ''0'' (pt_calls (take 2 backRun) [])) = Inr shown \<and>
      url shown = ''https://b.example/'') \<and>
   (\<exists>shown. snd (pt_type okService ''0'' ''hello'' (pt_calls (take 2 backRun) [])) = Inr shown \<and>
      url shown = ''https://b.example/'') \<and>
   list_all (\<lambda>c. \<not> isBackCall c) (take 2 backRun) \<and>
   currentUrlOf (pt_calls (take 2 backRun) []) = ''https://b.example/'' \<and>
   mostRecentNavigate (take 2 backRun) = ''https://b.example/''"
proof -
  have h: "pt_calls (take 2 backRun) [] = [''https://a.example/'', ''https://b.example/'']"
    by code_simp
  have nb: "\<forall>c \<in> set (take 2 backRun). \<not> isBackCall c" by (simp add: backRun_def)
  have cur: "currentUrlOf [''https://a.example/'', ''https://b.example/''] = ''https://b.example/''"
    by (simp add: currentUrlOf_def)
  obtain shown where c: "snd (pt_click okService ''0'' [''https://a.example/'', ''https://b.example/'']) = Inr shown"
    by (simp add: pt_click_def getPageInfo_def pinchtabFetch_def okService_def Let_def)
  obtain shown' where t: "snd (pt_type okService ''0'' ''hello'' [''https://a.example/'', ''https://b.example/'']) = Inr shown'"
    by (simp add: pt_type_def getPageInfo_def pinchtabFetch_def okService_def Let_def)
  note w = click_and_type_report_history_top
             [where sv = okService and r = "''0''" and w = "''hello''" and info = shown
                and info' = shown'
                and h = "[''https://a.example/'', ''https://b.example/'']" and cs = "take 2 backRun"]
  from w c cur have 1: "url shown = ''https://b.example/''" by simp
  from w t cur have 2: "url shown' = ''https://b.example/''" by simp
  from w nb h cur have 3: "mostRecentNavigate (take 2 backRun) = ''https://b.example/''" by simp
  from nb have 4: "list_all (\<lambda>c. \<not> isBackCall c) (take 2 backRun)" by (simp add: list_all_iff)
  from 1 2 3 4 c t h cur show ?thesis by simp
qed

end
